theory Spec2Isabelle
  imports Main "HOL-Library.AList"
begin

section \<open>Strings of the JavaScript runtime\<close>

text \<open>
  A JavaScript string is a sequence of UTF-16 code units.  The source matches the
  en-dash (U+2013) and the Unicode white space of \<open>\s\<close> and \<open>trim\<close>, none of
  which fits an 8-bit character, so a string is a list of code units given as natural
  numbers.  \<open>js\<close> turns an ASCII literal of the theory into such a string.
\<close>

type_synonym jsstring = "nat list"

definition js :: "string \<Rightarrow> jsstring" where
  "js s = map of_char s"

text \<open>A string is falsy exactly when it is empty; \<open>undefined\<close> is \<open>None\<close>.\<close>

fun truthy :: "jsstring option \<Rightarrow> bool" where
  "truthy None = False"
| "truthy (Some s) = (s \<noteq> [])"

text \<open>\<open>a || b\<close> on an optional string and a string default.\<close>

fun orElse :: "jsstring option \<Rightarrow> jsstring \<Rightarrow> jsstring" where
  "orElse None d = d"
| "orElse (Some s) d = (if s = [] then d else s)"

text \<open>
  White space and line terminators of ECMAScript: \<open>\s\<close> in a pattern and
  \<open>String.prototype.trim\<close> use the union of both sets, \<open>.\<close> excludes the line
  terminators only.
\<close>

definition isLineTerminator :: "nat \<Rightarrow> bool" where
  "isLineTerminator c = (c = 10 \<or> c = 13 \<or> c = 8232 \<or> c = 8233)"

definition isWhiteSpace :: "nat \<Rightarrow> bool" where
  "isWhiteSpace c =
     (c = 9 \<or> c = 11 \<or> c = 12 \<or> c = 32 \<or> c = 160 \<or> c = 5760 \<or> (8192 \<le> c \<and> c \<le> 8202)
      \<or> c = 8239 \<or> c = 8287 \<or> c = 12288 \<or> c = 65279 \<or> isLineTerminator c)"

definition trim :: "jsstring \<Rightarrow> jsstring" where
  "trim s = rev (dropWhile isWhiteSpace (rev (dropWhile isWhiteSpace s)))"

text \<open>
  \<open>toLowerCase\<close>.  On the ASCII range it maps \<open>A\<close>..\<open>Z\<close> to \<open>a\<close>..\<open>z\<close> and nothing
  else.  Outside ASCII the result comes from the Unicode case tables of the runtime, which
  may depend on the neighbours of a code unit (surrogate pairs, final sigma) and may
  produce several code units; that table is the parameter \<open>U\<close>, applied to the whole
  string and the position.
\<close>

definition asciiLower :: "nat \<Rightarrow> nat" where
  "asciiLower c = (if 65 \<le> c \<and> c \<le> 90 then c + 32 else c)"

definition asciiUpper :: "nat \<Rightarrow> nat" where
  "asciiUpper c = (if 97 \<le> c \<and> c \<le> 122 then c - 32 else c)"

type_synonym casetable = "jsstring \<Rightarrow> nat \<Rightarrow> jsstring"

definition toLowerCase :: "casetable \<Rightarrow> jsstring \<Rightarrow> jsstring" where
  "toLowerCase U s =
     concat (map (\<lambda>i. if s ! i < 128 then [asciiLower (s ! i)] else U s i) [0..<length s])"

text \<open>\<open>String.prototype.includes\<close> and \<open>startsWith\<close>.\<close>

fun includesStr :: "jsstring \<Rightarrow> jsstring \<Rightarrow> bool" where
  "includesStr [] needle = (needle = [])"
| "includesStr (c # cs) needle =
     (take (length needle) (c # cs) = needle \<or> includesStr cs needle)"

definition startsWith :: "jsstring \<Rightarrow> jsstring \<Rightarrow> bool" where
  "startsWith s p = (take (length p) s = p)"

section \<open>Regular expressions\<close>

text \<open>
  The two patterns of the source, \<open>/reserved\s*[-E]\s*(.+)/i\<close> (with the en-dash,
  U+2013, where \<open>E\<close> stands) and \<open>/(?:guest|name):\s*(.+)/i\<close>, are kept as data and
  run by a backtracking matcher
  that returns every way to match at a position in the order the engine tries them:
  the head of that list is the match JavaScript reports.

  Under the \<open>i\<close> flag (without \<open>u\<close>) two code units are compared after
  \<open>Canonicalize\<close>, which takes a unit to its upper-case form unless that would move
  a non-ASCII unit into ASCII.  Every literal of the two patterns is an ASCII letter or
  the colon, and the class holds the hyphen and the en-dash, which no other unit has as
  its upper-case form: the comparison is decided by \<open>asciiUpper\<close>.
\<close>

datatype atom =
    Lit nat
  | Space
  | Dot
  | OneOf "nat list"

datatype regex =
    Atom atom
  | Star atom
  | Plus atom
  | Seq regex regex
  | Alt regex regex
  | Group regex

fun atomMatches :: "atom \<Rightarrow> nat \<Rightarrow> bool" where
  "atomMatches (Lit p) c = (asciiUpper c = asciiUpper p)"
| "atomMatches Space c = isWhiteSpace c"
| "atomMatches Dot c = (\<not> isLineTerminator c)"
| "atomMatches (OneOf ps) c = (asciiUpper c \<in> set (map asciiUpper ps))"

text \<open>Greedy repetition: the remaining inputs, longest consumption first.\<close>

fun starOf :: "atom \<Rightarrow> jsstring \<Rightarrow> jsstring list" where
  "starOf a [] = [[]]"
| "starOf a (c # cs) = (if atomMatches a c then starOf a cs @ [c # cs] else [c # cs])"

text \<open>
  A result is the text of capture group 1 (if the group took part) and the rest of the
  input after the match.
\<close>

type_synonym mresult = "jsstring option \<times> jsstring"

fun matchAt :: "regex \<Rightarrow> jsstring \<Rightarrow> mresult list" where
  "matchAt (Atom a) s =
     (case s of [] \<Rightarrow> [] | c # cs \<Rightarrow> if atomMatches a c then [(None, cs)] else [])"
| "matchAt (Star a) s = map (Pair None) (starOf a s)"
| "matchAt (Plus a) s =
     (case s of [] \<Rightarrow> []
      | c # cs \<Rightarrow> if atomMatches a c then map (Pair None) (starOf a cs) else [])"
| "matchAt (Seq r1 r2) s =
     concat (map (\<lambda>(g1, rest1).
               map (\<lambda>(g2, rest2). (case g2 of None \<Rightarrow> g1 | Some t \<Rightarrow> Some t, rest2))
                   (matchAt r2 rest1))
             (matchAt r1 s))"
| "matchAt (Alt r1 r2) s = matchAt r1 s @ matchAt r2 s"
| "matchAt (Group r) s =
     map (\<lambda>(g, rest). (Some (take (length s - length rest) s), rest)) (matchAt r s)"

text \<open>
  \<open>String.prototype.match\<close> without the \<open>g\<close> flag: the first start position with a
  match, from the left.  \<open>None\<close> is \<open>null\<close>; \<open>Some g\<close> is a match array whose
  element 1 is \<open>g\<close> (\<open>None\<close> for \<open>undefined\<close>).
\<close>

fun regexMatch :: "regex \<Rightarrow> jsstring \<Rightarrow> jsstring option option" where
  "regexMatch r [] = (case matchAt r [] of [] \<Rightarrow> None | (g, rest) # more \<Rightarrow> Some g)"
| "regexMatch r (c # cs) =
     (case matchAt r (c # cs) of [] \<Rightarrow> regexMatch r cs | (g, rest) # more \<Rightarrow> Some g)"

fun word :: "jsstring \<Rightarrow> regex \<Rightarrow> regex" where
  "word [] r = r"
| "word (c # cs) r = Seq (Atom (Lit c)) (word cs r)"

definition reservedRe :: regex where
  "reservedRe =
     word (js ''reserved'')
       (Seq (Star Space) (Seq (Atom (OneOf [45, 8211])) (Seq (Star Space) (Group (Plus Dot)))))"

definition descRe :: regex where
  "descRe =
     Seq (Alt (word (js ''guest'') (Atom (Lit 58))) (word (js ''name'') (Atom (Lit 58))))
       (Seq (Star Space) (Group (Plus Dot)))"

section \<open>Dates\<close>

text \<open>
  A \<open>Date\<close> object holds a time value, an integral number of milliseconds since the
  epoch with absolute value at most 8.64e15, or \<open>NaN\<close> (an invalid date).
  \<open>new Date(d)\<close> for a \<open>Date\<close> \<open>d\<close> copies the time value through \<open>TimeClip\<close>.
\<close>

datatype jsdate = Instant int | InvalidDate

datatype jserror = RangeError jsstring | TypeError jsstring

fun message :: "jserror \<Rightarrow> jsstring" where
  "message (RangeError m) = m"
| "message (TypeError m) = m"

definition msPerDay :: int where
  "msPerDay = 1000 * 60 * 60 * 24"

fun newDate :: "jsdate \<Rightarrow> jsdate" where
  "newDate InvalidDate = InvalidDate"
| "newDate (Instant t) = (if \<bar>t\<bar> \<le> 8640000000000000 then Instant t else InvalidDate)"

text \<open>Fixed-width decimal digits of a number that is not negative, most significant first.\<close>

fun digits :: "nat \<Rightarrow> int \<Rightarrow> jsstring" where
  "digits 0 n = []"
| "digits (Suc w) n = digits w (n div 10) @ [48 + nat (n mod 10)]"

text \<open>
  Year, month and day of a day number in the proleptic Gregorian calendar (the
  calendar of \<open>YearFromTime\<close>, \<open>MonthFromTime\<close> and \<open>DateFromTime\<close>), computed in
  eras of 400 years that start on 1 March.
\<close>

definition civil :: "int \<Rightarrow> int \<times> int \<times> int" where
  "civil day =
     (let z = day + 719468;
          era = z div 146097;
          doe = z - era * 146097;
          yoe = (doe - doe div 1460 + doe div 36524 - doe div 146096) div 365;
          doy = doe - (365 * yoe + yoe div 4 - yoe div 100);
          mp = (5 * doy + 2) div 153;
          d = doy - (153 * mp + 2) div 5 + 1;
          m = (if mp < 10 then mp + 3 else mp - 9);
          y = yoe + era * 400 + (if m \<le> 2 then 1 else 0)
      in (y, m, d))"

definition yearString :: "int \<Rightarrow> jsstring" where
  "yearString y =
     (if 0 \<le> y \<and> y \<le> 9999 then digits 4 y
      else (if y < 0 then js ''-'' else js ''+'') @ digits 6 \<bar>y\<bar>)"

text \<open>\<open>Date.prototype.toISOString\<close>: a \<open>RangeError\<close> on an invalid date.\<close>

definition isoOfInstant :: "int \<Rightarrow> jsstring" where
  "isoOfInstant t =
     (let (y, m, d) = civil (t div msPerDay);
          tw = t mod msPerDay
      in yearString y @ js ''-'' @ digits 2 m @ js ''-'' @ digits 2 d
         @ js ''T'' @ digits 2 (tw div 3600000)
         @ js '':'' @ digits 2 (tw div 60000 mod 60)
         @ js '':'' @ digits 2 (tw div 1000 mod 60)
         @ js ''.'' @ digits 3 (tw mod 1000) @ js ''Z'')"

fun toISOString :: "jsdate \<Rightarrow> jserror + jsstring" where
  "toISOString InvalidDate = Inl (RangeError (js ''Invalid time value''))"
| "toISOString (Instant t) = Inr (isoOfInstant t)"

text \<open>\<open>s.split("T")[0]\<close>: the text before the first \<open>T\<close> (all of \<open>s\<close> without one).\<close>

definition beforeT :: "jsstring \<Rightarrow> jsstring" where
  "beforeT s = takeWhile (\<lambda>c. c \<noteq> 84) s"

text \<open>
  A JavaScript number that is an integer or \<open>NaN\<close> (\<open>None\<close>).  \<open>b - a\<close> on two
  dates subtracts the time values; \<open>Math.round(x / n)\<close> rounds the quotient to the
  nearest integer, a half towards plus infinity.  The source computes the quotient in
  double precision; the integer formula below is that result as long as the difference
  of the time values is below \<open>2 ^ 53\<close> in absolute value (about 285000 years).
\<close>

fun dateDiff :: "jsdate \<Rightarrow> jsdate \<Rightarrow> int option" where
  "dateDiff (Instant b) (Instant a) = Some (b - a)"
| "dateDiff b a = None"

fun roundDiv :: "int option \<Rightarrow> int \<Rightarrow> int option" where
  "roundDiv None n = None"
| "roundDiv (Some x) n = Some ((2 * x + n) div (2 * n))"

section \<open>Classification and guest name\<close>

definition bindE :: "jserror + 'a \<Rightarrow> ('a \<Rightarrow> jserror + 'b) \<Rightarrow> jserror + 'b" where
  "bindE x f = (case x of Inl e \<Rightarrow> Inl e | Inr v \<Rightarrow> f v)"

text \<open>Lines 28 to 31: the blackout test on the summary.\<close>

definition isBlocked :: "casetable \<Rightarrow> jsstring \<Rightarrow> bool" where
  "isBlocked U summary =
     (includesStr (toLowerCase U summary) (js ''not available'') \<or>
      includesStr (toLowerCase U summary) (js ''airbnb'') \<and>
        \<not> includesStr (toLowerCase U summary) (js ''reserved''))"

text \<open>
  Element 1 of a match array, trimmed; \<open>undefined.trim()\<close> is a \<open>TypeError\<close>.
\<close>

fun trimGroup :: "jsstring option \<Rightarrow> jserror + jsstring" where
  "trimGroup None = Inl (TypeError (js ''Cannot read properties of undefined''))"
| "trimGroup (Some t) = Inr (trim t)"

text \<open>Lines 42 to 50: the guest name.\<close>

definition extractGuestName :: "jsstring \<Rightarrow> jsstring option \<Rightarrow> jserror + jsstring" where
  "extractGuestName summary description =
     (case regexMatch reservedRe summary of
        Some reservedMatch \<Rightarrow> trimGroup reservedMatch
      | None \<Rightarrow>
          (case description of
             None \<Rightarrow> Inr (js ''Airbnb Guest'')
           | Some d \<Rightarrow>
               if d = [] then Inr (js ''Airbnb Guest'')
               else (case regexMatch descRe d of
                       Some descMatch \<Rightarrow> trimGroup descMatch
                     | None \<Rightarrow> Inr (js ''Airbnb Guest''))))"

section \<open>Events and reservations\<close>

text \<open>
  One entry of the object that \<open>ical.async.fromURL\<close> resolves to, with the fields the
  source reads: \<open>type\<close>, \<open>summary\<close>, \<open>description\<close> and \<open>uid\<close> are strings
  (or \<open>undefined\<close>), \<open>start\<close> and \<open>end\<close> are \<open>Date\<close> objects (or \<open>undefined\<close>).
\<close>

record event =
  ev_type :: jsstring
  ev_summary :: "jsstring option"
  ev_description :: "jsstring option"
  ev_start :: "jsdate option"
  ev_end :: "jsdate option"
  ev_uid :: "jsstring option"

record reservation =
  id_res :: jsstring
  propertyId :: jsstring
  guestName :: jsstring
  checkIn :: jsstring
  checkOut :: jsstring
  nights :: "int option"
  total :: int
  source :: jsstring
  summary :: jsstring

text \<open>
  The body of the loop for one entry: \<open>Inr None\<close> is a \<open>continue\<close>, \<open>Inr (Some r)\<close>
  the pushed reservation, \<open>Inl e\<close> an exception that leaves the loop.
\<close>

definition processEvent :: "casetable \<Rightarrow> jsstring \<Rightarrow> event \<Rightarrow> jserror + reservation option" where
  "processEvent U pid ev =
     (if ev_type ev \<noteq> js ''VEVENT'' then Inr None
      else
        let summ = orElse (ev_summary ev) [] in
        if isBlocked U summ then Inr None
        else
          (case (ev_start ev, ev_end ev) of
             (Some start, Some end) \<Rightarrow>
               (let cin = newDate start; cout = newDate end in
                bindE (extractGuestName summ (ev_description ev)) (\<lambda>guest.
                let n = roundDiv (dateDiff cout cin) msPerDay in
                bindE (if truthy (ev_uid ev) then Inr (orElse (ev_uid ev) [])
                       else bindE (toISOString cin) (\<lambda>iso. Inr (pid @ js ''-'' @ iso))) (\<lambda>i.
                bindE (toISOString cin) (\<lambda>isoIn.
                bindE (toISOString cout) (\<lambda>isoOut.
                Inr (Some \<lparr> id_res = i, propertyId = pid, guestName = guest,
                            checkIn = beforeT isoIn, checkOut = beforeT isoOut,
                            nights = n, total = 0, source = js ''airbnb'',
                            summary = summ \<rparr>))))))
           | _ \<Rightarrow> Inr None))"

text \<open>The \<open>for ... in\<close> loop over the entries, in the enumeration order of the object.\<close>

fun collect ::
  "casetable \<Rightarrow> jsstring \<Rightarrow> (jsstring \<times> event) list \<Rightarrow> reservation list
     \<Rightarrow> jserror + reservation list" where
  "collect U pid [] acc = Inr acc"
| "collect U pid ((key, ev) # rest) acc =
     (case processEvent U pid ev of
        Inl e \<Rightarrow> Inl e
      | Inr None \<Rightarrow> collect U pid rest acc
      | Inr (Some r) \<Rightarrow> collect U pid rest (acc @ [r]))"

text \<open>
  What awaiting \<open>ical.async.fromURL(url)\<close> gives: a rejection with an error message, or
  the decoded entries.  The network is a function from the url to that outcome.
\<close>

datatype fetched = Rejected jsstring | Resolved "(jsstring \<times> event) list"

definition errorLine :: "jsstring \<Rightarrow> jsstring \<Rightarrow> jsstring" where
  "errorLine pid msg = js ''Error parsing iCal for property '' @ pid @ js '': '' @ msg"

text \<open>
  \<open>parseIcal\<close>: the reservations, or \<open>null\<close> (\<open>None\<close>) after writing the cause to
  the console.  The console is the list of lines written so far.
\<close>

definition parseIcal ::
  "casetable \<Rightarrow> (jsstring \<Rightarrow> fetched) \<Rightarrow> jsstring \<Rightarrow> jsstring \<Rightarrow> jsstring option
     \<Rightarrow> jsstring list \<Rightarrow> reservation list option \<times> jsstring list" where
  "parseIcal U net icalUrl pid propertyName console =
     (case net icalUrl of
        Rejected msg \<Rightarrow> (None, console @ [errorLine pid msg])
      | Resolved events \<Rightarrow>
          (case collect U pid events [] of
             Inl err \<Rightarrow> (None, console @ [errorLine pid (message err)])
           | Inr reservations \<Rightarrow> (Some reservations, console)))"

section \<open>The property cache\<close>

text \<open>
  \<open>propertyCache\<close> is a plain object used as a dictionary.  Its own properties are
  enumerated by \<open>for ... in\<close> and \<open>Object.keys\<close> with the array indices first, in
  ascending numeric order, then the other keys in the order of their creation.  The
  association list keeps that order; assigning to an existing key keeps its place.
  Keys are own properties: names that the prototype of an object answers to
  (\<open>__proto__\<close>) are outside the model.
\<close>

record entry =
  icalUrl :: jsstring
  name :: jsstring
  reservations :: "reservation list"
  lastSynced :: "jsstring option"

type_synonym cache = "(jsstring \<times> entry) list"

definition decimal :: "jsstring \<Rightarrow> nat" where
  "decimal s = foldl (\<lambda>n c. 10 * n + (c - 48)) 0 s"

definition isArrayIndex :: "jsstring \<Rightarrow> bool" where
  "isArrayIndex s =
     (s \<noteq> [] \<and> list_all (\<lambda>c. 48 \<le> c \<and> c \<le> 57) s \<and> (s = [48] \<or> hd s \<noteq> 48)
      \<and> decimal s < 4294967295)"

fun insertKey :: "jsstring \<Rightarrow> 'v \<Rightarrow> (jsstring \<times> 'v) list \<Rightarrow> (jsstring \<times> 'v) list" where
  "insertKey k v [] = [(k, v)]"
| "insertKey k v ((k', v') # rest) =
     (if isArrayIndex k \<and> (\<not> isArrayIndex k' \<or> decimal k < decimal k')
      then (k, v) # (k', v') # rest
      else (k', v') # insertKey k v rest)"

definition setProp :: "jsstring \<Rightarrow> 'v \<Rightarrow> (jsstring \<times> 'v) list \<Rightarrow> (jsstring \<times> 'v) list" where
  "setProp k v obj =
     (if k \<in> set (map fst obj) then AList.update k v obj else insertKey k v obj)"

text \<open>The server's state: the cache and the lines written to the console.\<close>

record world =
  propertyCache :: cache
  console :: "jsstring list"

text \<open>Decimal digits of a length, as a template literal prints it.\<close>

fun showNat :: "nat \<Rightarrow> jsstring" where
  "showNat n = (if n < 10 then [48 + n] else showNat (n div 10) @ [48 + n mod 10])"

declare showNat.simps [simp del]

section \<open>Synchronisation\<close>

text \<open>
  What \<open>syncAll\<close> meets outside the process: the network as it answers while a property
  is being fetched, the clock when that property's result is stored, and the clock when
  the run starts.  The run visits each key once, so the answers are indexed by the key.
  Handlers are taken to run one at a time: no other request changes the cache while a
  fetch is awaited.
\<close>

record env =
  netAt :: "jsstring \<Rightarrow> jsstring \<Rightarrow> fetched"
  nowAt :: "jsstring \<Rightarrow> int"
  startedAt :: int

text \<open>Lines 81 and 82 (and 124, 125): the two assignments after a successful parse.\<close>

definition storeResult :: "jsstring \<Rightarrow> reservation list \<Rightarrow> int \<Rightarrow> cache \<Rightarrow> cache" where
  "storeResult pid rs now c =
     AList.map_entry pid (\<lambda>e. e\<lparr>lastSynced := Some (isoOfInstant now)\<rparr>)
       (AList.map_entry pid (\<lambda>e. e\<lparr>reservations := rs\<rparr>) c)"

definition okLine :: "jsstring \<Rightarrow> nat \<Rightarrow> jsstring" where
  "okLine nm n = [32, 32, 10003, 32] @ nm @ js '': '' @ showNat n @ js '' reservations''"

definition failLine :: "jsstring \<Rightarrow> jsstring" where
  "failLine nm = [32, 32, 10007, 32] @ nm @ js '': sync failed''"

text \<open>
  The loop of \<open>syncAll\<close> over the keys enumerated at its start.  Reading a field of a
  missing entry would be a \<open>TypeError\<close>.
\<close>

fun syncLoop :: "casetable \<Rightarrow> env \<Rightarrow> jsstring list \<Rightarrow> world \<Rightarrow> jserror + world" where
  "syncLoop U E [] w = Inr w"
| "syncLoop U E (pid # pids) w =
     (case map_of (propertyCache w) pid of
        None \<Rightarrow> Inl (TypeError (js ''Cannot read properties of undefined''))
      | Some ent \<Rightarrow>
          (case parseIcal U (netAt E pid) (icalUrl ent) pid (Some (name ent)) (console w) of
             (Some rs, con) \<Rightarrow>
               syncLoop U E pids
                 \<lparr> propertyCache = storeResult pid rs (nowAt E pid) (propertyCache w),
                   console = con @ [okLine (name ent) (length rs)] \<rparr>
           | (None, con) \<Rightarrow>
               syncLoop U E pids
                 \<lparr> propertyCache = propertyCache w,
                   console = con @ [failLine (name ent)] \<rparr>))"

definition syncAll :: "casetable \<Rightarrow> env \<Rightarrow> world \<Rightarrow> jserror + world" where
  "syncAll U E w =
     syncLoop U E (map fst (propertyCache w))
       (w\<lparr>console := console w
            @ [js ''['' @ isoOfInstant (startedAt E) @ js ''] Syncing all properties...'']\<rparr>)"

section \<open>Routes\<close>

record registerBody =
  body_propertyId :: "jsstring option"
  body_name :: "jsstring option"
  body_icalUrl :: "jsstring option"

record status =
  st_propertyId :: jsstring
  st_name :: jsstring
  st_lastSynced :: "jsstring option"
  st_reservationCount :: nat

datatype payload =
    ErrorMsg jsstring
  | Registered jsstring "jsstring option" nat "jsstring option"
  | ReservationList "reservation list" "status list" nat

datatype reply = Json nat payload

text \<open>Lines 114 to 119: the registration itself.\<close>

definition registerEntry :: "jsstring \<Rightarrow> jsstring option \<Rightarrow> jsstring \<Rightarrow> cache \<Rightarrow> cache" where
  "registerEntry pid nm url c =
     setProp pid
       \<lparr> icalUrl = url,
         name = orElse nm (js ''Property '' @ pid),
         reservations = (case map_of c pid of None \<Rightarrow> [] | Some old \<Rightarrow> reservations old),
         lastSynced = None \<rparr> c"

text \<open>
  \<open>POST /properties\<close>.  The fields of the body are strings or absent; \<open>net\<close> and
  \<open>now\<close> are the network and the clock as the handler meets them.
\<close>

definition postProperties ::
  "casetable \<Rightarrow> (jsstring \<Rightarrow> fetched) \<Rightarrow> int \<Rightarrow> registerBody \<Rightarrow> world \<Rightarrow> reply \<times> world" where
  "postProperties U net now body w =
     (if \<not> truthy (body_propertyId body) \<or> \<not> truthy (body_icalUrl body)
      then (Json 400 (ErrorMsg (js ''propertyId and icalUrl are required'')), w)
      else
        let pid = orElse (body_propertyId body) [];
            url = orElse (body_icalUrl body) []
        in
        if \<not> startsWith url (js ''https://'')
        then (Json 400 (ErrorMsg (js ''icalUrl must be a valid https:// URL'')), w)
        else
          let c1 = registerEntry pid (body_name body) url (propertyCache w) in
          (case parseIcal U net url pid (body_name body) (console w) of
             (Some rs, con) \<Rightarrow>
               (let c2 = storeResult pid rs now c1 in
                (Json 200 (Registered pid (body_name body) (length rs)
                             (case map_of c2 pid of None \<Rightarrow> None | Some e \<Rightarrow> lastSynced e)),
                 \<lparr> propertyCache = c2, console = con \<rparr>))
           | (None, con) \<Rightarrow>
               (Json 500 (ErrorMsg (js
                  ''Failed to fetch or parse iCal URL. Please check the URL and try again.'')),
                \<lparr> propertyCache = c1, console = con \<rparr>)))"




section \<open>Vocabulary of the properties\<close>

text \<open>
  What a pattern means, apart from the order in which a matcher tries things: the pairs
  of a matched text and the text of group 1.
\<close>

fun sem :: "regex \<Rightarrow> (jsstring \<times> jsstring option) set" where
  "sem (Atom a) = {([c], None) | c. atomMatches a c}"
| "sem (Star a) = {(w, None) | w. list_all (atomMatches a) w}"
| "sem (Plus a) = {(w, None) | w. w \<noteq> [] \<and> list_all (atomMatches a) w}"
| "sem (Seq r1 r2) =
     {(u @ v, case g2 of None \<Rightarrow> g1 | Some t \<Rightarrow> Some t) | u v g1 g2.
        (u, g1) \<in> sem r1 \<and> (v, g2) \<in> sem r2}"
| "sem (Alt r1 r2) = sem r1 \<union> sem r2"
| "sem (Group r) = {(w, Some w) | w g. (w, g) \<in> sem r}"


text \<open>
  The two patterns read as text: a word up to ASCII letter case, white space, the hyphen
  or en-dash (the colon for a label), white space, and a trailing text that is not empty
  and stays on one line.
\<close>

definition sameLetters :: "jsstring \<Rightarrow> jsstring \<Rightarrow> bool" where
  "sameLetters u k = (map asciiUpper u = map asciiUpper k)"

definition trailingText :: "jsstring \<Rightarrow> bool" where
  "trailingText t = (t \<noteq> [] \<and> list_all (\<lambda>c. \<not> isLineTerminator c) t)"

definition reservedForm :: "jsstring \<Rightarrow> jsstring \<Rightarrow> bool" where
  "reservedForm w t =
     (\<exists>k ws1 sep ws2. w = k @ ws1 @ [sep] @ ws2 @ t \<and> sameLetters k (js ''reserved'')
        \<and> list_all isWhiteSpace ws1 \<and> (sep = 45 \<or> sep = 8211)
        \<and> list_all isWhiteSpace ws2 \<and> trailingText t)"

definition labelForm :: "jsstring \<Rightarrow> jsstring \<Rightarrow> bool" where
  "labelForm w t =
     (\<exists>k ws. w = k @ [58] @ ws @ t
        \<and> (sameLetters k (js ''guest'') \<or> sameLetters k (js ''name''))
        \<and> list_all isWhiteSpace ws \<and> trailingText t)"



text \<open>\<open>needle\<close> occurs in \<open>s\<close> as a contiguous part.\<close>

definition containsText :: "jsstring \<Rightarrow> jsstring \<Rightarrow> bool" where
  "containsText s needle = (\<exists>pre post. s = pre @ needle @ post)"

text \<open>
  An entry that reaches the guest-name step: a \<open>VEVENT\<close> that is not a blackout and
  has a start and an end.  Its dates are usable when both are valid; a candidate with an
  unusable date makes \<open>toISOString\<close> throw.
\<close>

definition candidate :: "casetable \<Rightarrow> event \<Rightarrow> bool" where
  "candidate U ev =
     (ev_type ev = js ''VEVENT'' \<and> \<not> isBlocked U (orElse (ev_summary ev) [])
      \<and> ev_start ev \<noteq> None \<and> ev_end ev \<noteq> None)"

fun usable :: "jsdate option \<Rightarrow> bool" where
  "usable None = False"
| "usable (Some d) = (newDate d \<noteq> InvalidDate)"

definition faulty :: "casetable \<Rightarrow> event \<Rightarrow> bool" where
  "faulty U ev = (candidate U ev \<and> \<not> (usable (ev_start ev) \<and> usable (ev_end ev)))"

text \<open>The night count and the id that the source gives to a candidate.\<close>

definition nightsOfEvent :: "event \<Rightarrow> int option" where
  "nightsOfEvent ev =
     (case (ev_start ev, ev_end ev) of
        (Some a, Some b) \<Rightarrow> roundDiv (dateDiff (newDate b) (newDate a)) msPerDay
      | _ \<Rightarrow> None)"

definition eventId :: "jsstring \<Rightarrow> event \<Rightarrow> jsstring" where
  "eventId pid ev =
     (if truthy (ev_uid ev) then orElse (ev_uid ev) []
      else pid @ js ''-'' @ (case ev_start ev of Some (Instant t) \<Rightarrow> isoOfInstant t | _ \<Rightarrow> []))"

text \<open>
  The value \<open>parseIcal\<close> returns, and what one iteration of \<open>syncAll\<close> makes of an
  entry.
\<close>

definition parsed :: "casetable \<Rightarrow> (jsstring \<Rightarrow> fetched) \<Rightarrow> jsstring \<Rightarrow> jsstring \<Rightarrow> reservation list option" where
  "parsed U net url pid = fst (parseIcal U net url pid None [])"

definition synced :: "casetable \<Rightarrow> env \<Rightarrow> jsstring \<Rightarrow> entry \<Rightarrow> entry" where
  "synced U E pid ent =
     (case parsed U (netAt E pid) (icalUrl ent) pid of
        None \<Rightarrow> ent
      | Some rs \<Rightarrow> ent\<lparr>reservations := rs, lastSynced := Some (isoOfInstant (nowAt E pid))\<rparr>)"


section \<open>Sample inputs\<close>

text \<open>
  A case table that leaves non-ASCII code units alone, a network that serves a fixed feed
  and one that fails with a message, an event of a stay between two instants, and a cache
  of two properties.
\<close>

definition asciiTable :: casetable where
  "asciiTable s i = [s ! i]"

definition serving :: "(jsstring \<times> event) list \<Rightarrow> jsstring \<Rightarrow> fetched" where
  "serving evs url = Resolved evs"

definition unreachable :: "jsstring \<Rightarrow> jsstring \<Rightarrow> fetched" where
  "unreachable msg url = Rejected msg"

definition stay :: "jsstring \<Rightarrow> int \<Rightarrow> int \<Rightarrow> jsstring option \<Rightarrow> event" where
  "stay smry a b u =
     \<lparr> ev_type = js ''VEVENT'', ev_summary = Some smry, ev_description = None,
       ev_start = Some (Instant a), ev_end = Some (Instant b), ev_uid = u \<rparr>"

definition loft :: entry where
  "loft = \<lparr> icalUrl = js ''https://old.example/loft.ics'', name = js ''Loft'',
            reservations = [], lastSynced = Some (js ''2024-01-01T00:00:00.000Z'') \<rparr>"

definition cabin :: entry where
  "cabin = \<lparr> icalUrl = js ''https://old.example/cabin.ics'', name = js ''Cabin'',
             reservations = [], lastSynced = None \<rparr>"

definition flakyNet :: "jsstring \<Rightarrow> jsstring \<Rightarrow> fetched" where
  "flakyNet pid url = (if pid = js ''1'' then Rejected (js ''ETIMEDOUT'') else Resolved [])"

definition noon :: "jsstring \<Rightarrow> int" where
  "noon pid = 1704110400000"

definition twoHomes :: world where
  "twoHomes = \<lparr> propertyCache = [(js ''1'', loft), (js ''2'', cabin)], console = [] \<rparr>"

definition request :: "jsstring \<Rightarrow> jsstring \<Rightarrow> registerBody" where
  "request pid url =
     \<lparr> body_propertyId = Some pid, body_name = None, body_icalUrl = Some url \<rparr>"

section \<open>The matcher finds what the patterns mean\<close>

lemma set_starOf:
  "set (starOf a s) = {rest. \<exists>w. s = w @ rest \<and> list_all (atomMatches a) w}"
proof (induction s)
  case Nil
  then show ?case by auto
next
  case (Cons c cs)
  show ?case
  proof (cases "atomMatches a c")
    case True
    have "{rest. \<exists>w. c # cs = w @ rest \<and> list_all (atomMatches a) w}
          = insert (c # cs) {rest. \<exists>w. cs = w @ rest \<and> list_all (atomMatches a) w}"
      using True by (auto simp: Cons_eq_append_conv)
    then show ?thesis using True Cons by simp
  next
    case False
    have "{rest. \<exists>w. c # cs = w @ rest \<and> list_all (atomMatches a) w} = {c # cs}"
      using False by (auto simp: Cons_eq_append_conv)
    then show ?thesis using False by simp
  qed
qed

lemma set_matchAt:
  "set (matchAt r s) = {(g, rest). \<exists>w. s = w @ rest \<and> (w, g) \<in> sem r}"
proof (induction r arbitrary: s)
  case (Atom a)
  then show ?case by (cases s) (auto simp: Cons_eq_append_conv)
next
  case (Star a)
  then show ?case by (auto simp: set_starOf)
next
  case (Plus a)
  show ?case
  proof (cases s)
    case Nil
    then show ?thesis by auto
  next
    case (Cons c cs)
    show ?thesis
    proof (cases "atomMatches a c")
      case True
      then show ?thesis using Cons
        by (auto simp: set_starOf Cons_eq_append_conv)
    next
      case False
      then show ?thesis using Cons by (auto simp: Cons_eq_append_conv)
    qed
  qed
next
  case (Seq r1 r2)
  show ?case
  proof (rule set_eqI, clarify)
    fix g rest
    have "(g, rest) \<in> set (matchAt (Seq r1 r2) s) \<longleftrightarrow>
          (\<exists>g1 rest1 g2. (g1, rest1) \<in> set (matchAt r1 s) \<and> (g2, rest) \<in> set (matchAt r2 rest1)
              \<and> g = (case g2 of None \<Rightarrow> g1 | Some t \<Rightarrow> Some t))"
      by (auto simp: image_iff) force
    also have "\<dots> \<longleftrightarrow> (\<exists>w. s = w @ rest \<and> (w, g) \<in> sem (Seq r1 r2))"
      (is "?L \<longleftrightarrow> ?R")
    proof
      assume ?L
      then obtain g1 rest1 g2 where
        m: "(g1, rest1) \<in> set (matchAt r1 s)" "(g2, rest) \<in> set (matchAt r2 rest1)"
        and g: "g = (case g2 of None \<Rightarrow> g1 | Some t \<Rightarrow> Some t)"
        by blast
      from m(1) obtain u where u: "s = u @ rest1" "(u, g1) \<in> sem r1"
        unfolding Seq.IH by blast
      from m(2) obtain v where v: "rest1 = v @ rest" "(v, g2) \<in> sem r2"
        unfolding Seq.IH by blast
      have "s = (u @ v) @ rest \<and> (u @ v, g) \<in> sem (Seq r1 r2)"
        using u v g by auto
      then show ?R by blast
    next
      assume ?R
      then obtain w where w: "s = w @ rest" "(w, g) \<in> sem (Seq r1 r2)"
        by blast
      then obtain u v g1 g2 where
        d: "w = u @ v" "(u, g1) \<in> sem r1" "(v, g2) \<in> sem r2"
        and g: "g = (case g2 of None \<Rightarrow> g1 | Some t \<Rightarrow> Some t)"
        by auto
      have "(g1, v @ rest) \<in> set (matchAt r1 s)"
        unfolding Seq.IH using d w(1) by auto
      moreover have "(g2, rest) \<in> set (matchAt r2 (v @ rest))"
        unfolding Seq.IH using d by auto
      ultimately show ?L using g by blast
    qed
    finally show "(g, rest) \<in> set (matchAt (Seq r1 r2) s) \<longleftrightarrow>
       (g, rest) \<in> {(g, rest). \<exists>w. s = w @ rest \<and> (w, g) \<in> sem (Seq r1 r2)}"
      by simp
  qed
next
  case (Alt r1 r2)
  then show ?case by auto
next
  case (Group r)
  show ?case
    unfolding matchAt.simps set_map Group.IH by (auto simp: image_iff)
qed


lemma matchAt_head:
  assumes "matchAt r s = (g, rest) # others"
  shows "\<exists>w. s = w @ rest \<and> (w, g) \<in> sem r"
proof -
  have "(g, rest) \<in> set (matchAt r s)"
    using assms by simp
  then show ?thesis
    unfolding set_matchAt by simp
qed


lemma regexMatch_Some:
  "regexMatch r s = Some g \<Longrightarrow> \<exists>pre w post. s = pre @ w @ post \<and> (w, g) \<in> sem r"
proof (induction s)
  case Nil
  then show ?case
    by (auto split: list.splits dest!: matchAt_head)
next
  case (Cons c cs)
  show ?case
  proof (cases "matchAt r (c # cs)")
    case Nil
    then have "regexMatch r cs = Some g"
      using Cons.prems by simp
    then obtain pre w post where "cs = pre @ w @ post" "(w, g) \<in> sem r"
      using Cons.IH by blast
    then have "c # cs = (c # pre) @ w @ post \<and> (w, g) \<in> sem r"
      by simp
    then show ?thesis by blast
  next
    case (Cons p others)
    obtain g' rest where p: "p = (g', rest)" by (cases p)
    then have "g' = g"
      using Cons Cons.prems by simp
    then obtain w where "c # cs = w @ rest" "(w, g) \<in> sem r"
      using matchAt_head Cons p by blast
    then have "c # cs = [] @ w @ rest \<and> (w, g) \<in> sem r"
      by simp
    then show ?thesis by blast
  qed
qed

lemma keep_capture: "(case g of None \<Rightarrow> None | Some t \<Rightarrow> Some t) = g"
  by (cases g) simp_all

lemma sem_Seq_plain:
  assumes "\<forall>u g1. (u, g1) \<in> sem ra \<longrightarrow> g1 = None"
  shows "(w, g) \<in> sem (Seq ra rb) \<longleftrightarrow> (\<exists>u v. w = u @ v \<and> (u, None) \<in> sem ra \<and> (v, g) \<in> sem rb)"
proof
  assume "(w, g) \<in> sem (Seq ra rb)"
  then obtain u v g1 g2 where
    d: "w = u @ v" "(u, g1) \<in> sem ra" "(v, g2) \<in> sem rb"
    and g: "g = (case g2 of None \<Rightarrow> g1 | Some t \<Rightarrow> Some t)"
    by auto
  have g1: "g1 = None" using assms d(2) by blast
  then have "g = g2" using g by (cases g2) simp_all
  then show "\<exists>u v. w = u @ v \<and> (u, None) \<in> sem ra \<and> (v, g) \<in> sem rb"
    using d g1 by blast
next
  assume "\<exists>u v. w = u @ v \<and> (u, None) \<in> sem ra \<and> (v, g) \<in> sem rb"
  then obtain u v where d: "w = u @ v" "(u, None) \<in> sem ra" "(v, g) \<in> sem rb"
    by blast
  have "(case g of None \<Rightarrow> None | Some t \<Rightarrow> Some t) = g"
    by (rule keep_capture)
  then have "\<exists>u' v' g1 g2. (w, g) = (u' @ v', case g2 of None \<Rightarrow> g1 | Some t \<Rightarrow> Some t)
               \<and> (u', g1) \<in> sem ra \<and> (v', g2) \<in> sem rb"
    using d by (intro exI [of _ u] exI [of _ v] exI [of _ None] exI [of _ g]) simp
  then show "(w, g) \<in> sem (Seq ra rb)"
    by simp
qed

lemma split_single:
  "(\<exists>u v. w = u @ v \<and> (\<exists>x. u = [x] \<and> P x) \<and> Q v) \<longleftrightarrow> (\<exists>x v. w = x # v \<and> P x \<and> Q v)"
proof
  assume "\<exists>u v. w = u @ v \<and> (\<exists>x. u = [x] \<and> P x) \<and> Q v"
  then obtain x v where "w = [x] @ v" "P x" "Q v"
    by blast
  then show "\<exists>x v. w = x # v \<and> P x \<and> Q v"
    by auto
next
  assume "\<exists>x v. w = x # v \<and> P x \<and> Q v"
  then obtain x v where "w = [x] @ v" "P x" "Q v"
    by auto
  then show "\<exists>u v. w = u @ v \<and> (\<exists>x. u = [x] \<and> P x) \<and> Q v"
    by blast
qed

lemma sem_lit:
  "(u, g) \<in> sem (Atom (Lit c)) \<longleftrightarrow> (\<exists>x. u = [x] \<and> asciiUpper x = asciiUpper c) \<and> g = None"
  by auto

lemma sem_separator:
  "(u, g) \<in> sem (Atom (OneOf [45, 8211])) \<longleftrightarrow> (\<exists>x. u = [x] \<and> (x = 45 \<or> x = 8211)) \<and> g = None"
proof -
  have "\<And>x. asciiUpper x = 45 \<or> asciiUpper x = 8211 \<longleftrightarrow> x = 45 \<or> x = 8211"
    by (auto simp: asciiUpper_def split: if_splits)
  then show ?thesis
    by (auto simp: asciiUpper_def)
qed

lemma sem_word:
  "(w, g) \<in> sem (word k r) \<longleftrightarrow> (\<exists>u v. w = u @ v \<and> sameLetters u k \<and> (v, g) \<in> sem r)"
proof (induction k arbitrary: w)
  case Nil
  then show ?case by (simp add: sameLetters_def)
next
  case (Cons c cs)
  have plain: "\<forall>u g1. (u, g1) \<in> sem (Atom (Lit c)) \<longrightarrow> g1 = None"
    by auto
  have "(w, g) \<in> sem (word (c # cs) r) \<longleftrightarrow>
        (\<exists>u v. w = u @ v \<and> (u, None) \<in> sem (Atom (Lit c)) \<and> (v, g) \<in> sem (word cs r))"
    unfolding word.simps by (rule sem_Seq_plain [OF plain])
  also have "\<dots> \<longleftrightarrow> (\<exists>x v. w = x # v \<and> asciiUpper x = asciiUpper c \<and> (v, g) \<in> sem (word cs r))"
    unfolding sem_lit by (simp add: split_single)
  also have "\<dots> \<longleftrightarrow> (\<exists>x u' v'. w = x # u' @ v' \<and> asciiUpper x = asciiUpper c
                 \<and> sameLetters u' cs \<and> (v', g) \<in> sem r)"
    unfolding Cons.IH by blast
  also have "\<dots> \<longleftrightarrow> (\<exists>u v. w = u @ v \<and> sameLetters u (c # cs) \<and> (v, g) \<in> sem r)"
  proof
    assume "\<exists>x u' v'. w = x # u' @ v' \<and> asciiUpper x = asciiUpper c
                 \<and> sameLetters u' cs \<and> (v', g) \<in> sem r"
    then obtain x u' v' where "w = (x # u') @ v'" "sameLetters (x # u') (c # cs)" "(v', g) \<in> sem r"
      by (auto simp: sameLetters_def)
    then show "\<exists>u v. w = u @ v \<and> sameLetters u (c # cs) \<and> (v, g) \<in> sem r"
      by blast
  next
    assume "\<exists>u v. w = u @ v \<and> sameLetters u (c # cs) \<and> (v, g) \<in> sem r"
    then obtain u v where d: "w = u @ v" "sameLetters u (c # cs)" "(v, g) \<in> sem r"
      by blast
    then obtain x u' where "u = x # u'" "asciiUpper x = asciiUpper c" "sameLetters u' cs"
      by (cases u) (auto simp: sameLetters_def)
    then show "\<exists>x u' v'. w = x # u' @ v' \<and> asciiUpper x = asciiUpper c
                 \<and> sameLetters u' cs \<and> (v', g) \<in> sem r"
      using d by auto
  qed
  finally show ?case .
qed

lemma sem_spaces:
  "(w, g) \<in> sem (Seq (Star Space) r) \<longleftrightarrow>
     (\<exists>ws v. w = ws @ v \<and> list_all isWhiteSpace ws \<and> (v, g) \<in> sem r)"
proof -
  have plain: "\<forall>u g1. (u, g1) \<in> sem (Star Space) \<longrightarrow> g1 = None"
    by auto
  have sp: "atomMatches Space = isWhiteSpace"
    by (rule ext) simp
  show ?thesis
    unfolding sem_Seq_plain [OF plain] by (simp add: sp)
qed

lemma sem_trailing: "(w, g) \<in> sem (Group (Plus Dot)) \<longleftrightarrow> g = Some w \<and> trailingText w"
proof -
  have dot: "atomMatches Dot = (\<lambda>c. \<not> isLineTerminator c)"
    by (rule ext) simp
  show ?thesis
    by (auto simp: dot trailingText_def)
qed

lemma sem_after_separator:
  "(v, g) \<in> sem (Seq (Atom (OneOf [45, 8211])) (Seq (Star Space) (Group (Plus Dot))))
     \<longleftrightarrow> (\<exists>c ws t. v = [c] @ ws @ t \<and> (c = 45 \<or> c = 8211) \<and> list_all isWhiteSpace ws
            \<and> g = Some t \<and> trailingText t)"
proof -
  have plain: "\<forall>u g1. (u, g1) \<in> sem (Atom (OneOf [45, 8211])) \<longrightarrow> g1 = None"
    by auto
  show ?thesis
    unfolding sem_Seq_plain [OF plain] sem_spaces sem_trailing sem_separator
  proof
    assume "\<exists>u va. v = u @ va \<and> ((\<exists>x. u = [x] \<and> (x = 45 \<or> x = 8211)) \<and> None = None)
              \<and> (\<exists>ws vb. va = ws @ vb \<and> list_all isWhiteSpace ws \<and> g = Some vb \<and> trailingText vb)"
    then obtain x ws t where
      "v = [x] @ ws @ t" "x = 45 \<or> x = 8211" "list_all isWhiteSpace ws" "g = Some t" "trailingText t"
      by blast
    then show "\<exists>c ws t. v = [c] @ ws @ t \<and> (c = 45 \<or> c = 8211) \<and> list_all isWhiteSpace ws
            \<and> g = Some t \<and> trailingText t"
      by blast
  next
    assume "\<exists>c ws t. v = [c] @ ws @ t \<and> (c = 45 \<or> c = 8211) \<and> list_all isWhiteSpace ws
            \<and> g = Some t \<and> trailingText t"
    then obtain c ws t where
      d: "v = [c] @ (ws @ t)" "c = 45 \<or> c = 8211" "list_all isWhiteSpace ws" "g = Some t" "trailingText t"
      by auto
    have "\<exists>vb. ws @ t = ws @ vb \<and> list_all isWhiteSpace ws \<and> g = Some vb \<and> trailingText vb"
      using d by blast
    then have "\<exists>wsa vb. ws @ t = wsa @ vb \<and> list_all isWhiteSpace wsa \<and> g = Some vb \<and> trailingText vb"
      by blast
    then show "\<exists>u va. v = u @ va \<and> ((\<exists>x. u = [x] \<and> (x = 45 \<or> x = 8211)) \<and> None = None)
              \<and> (\<exists>ws vb. va = ws @ vb \<and> list_all isWhiteSpace ws \<and> g = Some vb \<and> trailingText vb)"
      using d(1,2) by (intro exI [of _ "[c]"] exI [of _ "ws @ t"]) simp
  qed
qed

lemma sem_reservedRe:
  "(w, g) \<in> sem reservedRe \<longleftrightarrow> (\<exists>t. g = Some t \<and> reservedForm w t)"
  unfolding reservedRe_def sem_word sem_spaces sem_after_separator reservedForm_def
proof
  assume "\<exists>u v. w = u @ v \<and> sameLetters u (js ''reserved'') \<and>
            (\<exists>ws va. v = ws @ va \<and> list_all isWhiteSpace ws \<and>
               (\<exists>c ws t. va = [c] @ ws @ t \<and> (c = 45 \<or> c = 8211) \<and> list_all isWhiteSpace ws
                  \<and> g = Some t \<and> trailingText t))"
  then obtain u ws1 c ws2 t where
    "w = u @ ws1 @ [c] @ ws2 @ t" "sameLetters u (js ''reserved'')" "list_all isWhiteSpace ws1"
    "c = 45 \<or> c = 8211" "list_all isWhiteSpace ws2" "g = Some t" "trailingText t"
    by blast
  then show "\<exists>t. g = Some t \<and>
        (\<exists>k ws1 sep ws2. w = k @ ws1 @ [sep] @ ws2 @ t \<and> sameLetters k (js ''reserved'')
           \<and> list_all isWhiteSpace ws1 \<and> (sep = 45 \<or> sep = 8211)
           \<and> list_all isWhiteSpace ws2 \<and> trailingText t)"
    by blast
next
  assume "\<exists>t. g = Some t \<and>
        (\<exists>k ws1 sep ws2. w = k @ ws1 @ [sep] @ ws2 @ t \<and> sameLetters k (js ''reserved'')
           \<and> list_all isWhiteSpace ws1 \<and> (sep = 45 \<or> sep = 8211)
           \<and> list_all isWhiteSpace ws2 \<and> trailingText t)"
  then obtain t k ws1 sep ws2 where
    d: "g = Some t" "w = k @ ws1 @ [sep] @ ws2 @ t" "sameLetters k (js ''reserved'')"
       "list_all isWhiteSpace ws1" "sep = 45 \<or> sep = 8211"
       "list_all isWhiteSpace ws2" "trailingText t"
    by blast
  have inner: "\<exists>c ws ta. [sep] @ ws2 @ t = [c] @ ws @ ta \<and> (c = 45 \<or> c = 8211)
         \<and> list_all isWhiteSpace ws \<and> g = Some ta \<and> trailingText ta"
    using d by blast
  have "\<exists>ws va. ws1 @ [sep] @ ws2 @ t = ws @ va \<and> list_all isWhiteSpace ws \<and>
               (\<exists>c ws t. va = [c] @ ws @ t \<and> (c = 45 \<or> c = 8211) \<and> list_all isWhiteSpace ws
                  \<and> g = Some t \<and> trailingText t)"
    using inner d(4) by (intro exI [of _ ws1] exI [of _ "[sep] @ ws2 @ t"]) simp
  then show "\<exists>u v. w = u @ v \<and> sameLetters u (js ''reserved'') \<and>
            (\<exists>ws va. v = ws @ va \<and> list_all isWhiteSpace ws \<and>
               (\<exists>c ws t. va = [c] @ ws @ t \<and> (c = 45 \<or> c = 8211) \<and> list_all isWhiteSpace ws
                  \<and> g = Some t \<and> trailingText t))"
    using d(2,3) by (intro exI [of _ k] exI [of _ "ws1 @ [sep] @ ws2 @ t"]) simp
qed

lemma sem_label:
  "(u, g1) \<in> sem (Alt (word (js ''guest'') (Atom (Lit 58))) (word (js ''name'') (Atom (Lit 58))))
     \<longleftrightarrow> g1 = None \<and> (\<exists>k. u = k @ [58]
            \<and> (sameLetters k (js ''guest'') \<or> sameLetters k (js ''name'')))"
proof -
  have colon: "\<And>v g. (v, g) \<in> sem (Atom (Lit 58)) \<longleftrightarrow> v = [58] \<and> g = None"
    by (auto simp: asciiUpper_def split: if_splits)
  show ?thesis
    unfolding sem.simps(5) Un_iff sem_word colon by blast
qed

lemma sem_descRe:
  "(w, g) \<in> sem descRe \<longleftrightarrow> (\<exists>t. g = Some t \<and> labelForm w t)"
proof -
  have plain: "\<forall>u g1. (u, g1) \<in> sem (Alt (word (js ''guest'') (Atom (Lit 58)))
                                         (word (js ''name'') (Atom (Lit 58)))) \<longrightarrow> g1 = None"
    using sem_label by blast
  show ?thesis
    unfolding descRe_def sem_Seq_plain [OF plain] sem_label sem_spaces sem_trailing labelForm_def
  proof
    assume "\<exists>u v. w = u @ v \<and>
           (None = None \<and> (\<exists>k. u = k @ [58] \<and> (sameLetters k (js ''guest'') \<or> sameLetters k (js ''name''))))
           \<and> (\<exists>ws va. v = ws @ va \<and> list_all isWhiteSpace ws \<and> g = Some va \<and> trailingText va)"
    then obtain k ws t where
      "w = (k @ [58]) @ ws @ t" "sameLetters k (js ''guest'') \<or> sameLetters k (js ''name'')"
      "list_all isWhiteSpace ws" "g = Some t" "trailingText t"
      by blast
    then show "\<exists>t. g = Some t \<and> (\<exists>k ws. w = k @ [58] @ ws @ t
            \<and> (sameLetters k (js ''guest'') \<or> sameLetters k (js ''name''))
            \<and> list_all isWhiteSpace ws \<and> trailingText t)"
      by auto
  next
    assume "\<exists>t. g = Some t \<and> (\<exists>k ws. w = k @ [58] @ ws @ t
            \<and> (sameLetters k (js ''guest'') \<or> sameLetters k (js ''name''))
            \<and> list_all isWhiteSpace ws \<and> trailingText t)"
    then obtain t k ws where
      d: "g = Some t" "w = (k @ [58]) @ (ws @ t)"
         "sameLetters k (js ''guest'') \<or> sameLetters k (js ''name'')"
         "list_all isWhiteSpace ws" "trailingText t"
      by auto
    have "\<exists>wsa va. ws @ t = wsa @ va \<and> list_all isWhiteSpace wsa \<and> g = Some va \<and> trailingText va"
      using d by blast
    then show "\<exists>u v. w = u @ v \<and>
           (None = None \<and> (\<exists>k. u = k @ [58] \<and> (sameLetters k (js ''guest'') \<or> sameLetters k (js ''name''))))
           \<and> (\<exists>ws va. v = ws @ va \<and> list_all isWhiteSpace ws \<and> g = Some va \<and> trailingText va)"
      using d(2,3) by (intro exI [of _ "k @ [58]"] exI [of _ "ws @ t"]) auto
  qed
qed





section \<open>Strings\<close>

lemma concat_singletons: "concat (map (\<lambda>i. [f i]) xs) = map f xs"
  by (induction xs) auto

lemma toLowerCase_ascii:
  assumes "list_all (\<lambda>c. c < 128) s"
  shows "toLowerCase U s = map asciiLower s"
proof -
  have "map (\<lambda>i. if s ! i < 128 then [asciiLower (s ! i)] else U s i) [0..<length s]
        = map (\<lambda>i. [asciiLower (s ! i)]) [0..<length s]"
    using assms by (intro map_cong) (auto simp: list_all_length)
  then have "toLowerCase U s = concat (map (\<lambda>i. [asciiLower (s ! i)]) [0..<length s])"
    unfolding toLowerCase_def by (rule arg_cong)
  also have "\<dots> = map (\<lambda>i. asciiLower (s ! i)) [0..<length s]"
    by (rule concat_singletons)
  also have "\<dots> = map asciiLower (map ((!) s) [0..<length s])"
    by simp
  also have "\<dots> = map asciiLower s"
    by (simp only: map_nth)
  finally show ?thesis .
qed

lemma includesStr_iff: "includesStr s n \<longleftrightarrow> containsText s n"
proof (induction s)
  case Nil
  then show ?case by (auto simp: containsText_def)
next
  case (Cons c cs)
  have pre: "take (length n) (c # cs) = n \<longleftrightarrow> (\<exists>post. c # cs = n @ post)"
    by (metis append_eq_conv_conj append_take_drop_id)
  have "containsText (c # cs) n \<longleftrightarrow> (\<exists>post. c # cs = n @ post) \<or> containsText cs n"
    unfolding containsText_def
  proof
    assume "\<exists>pre post. c # cs = pre @ n @ post"
    then obtain pre post where d: "c # cs = pre @ n @ post" by blast
    show "(\<exists>post. c # cs = n @ post) \<or> (\<exists>pre post. cs = pre @ n @ post)"
    proof (cases pre)
      case Nil
      then show ?thesis using d by auto
    next
      case (Cons x pre')
      then have "cs = pre' @ n @ post" using d by simp
      then show ?thesis by blast
    qed
  next
    assume "(\<exists>post. c # cs = n @ post) \<or> (\<exists>pre post. cs = pre @ n @ post)"
    then show "\<exists>pre post. c # cs = pre @ n @ post"
    proof
      assume "\<exists>post. c # cs = n @ post"
      then obtain post where "c # cs = [] @ n @ post" by auto
      then show ?thesis by blast
    next
      assume "\<exists>pre post. cs = pre @ n @ post"
      then obtain pre post where "c # cs = (c # pre) @ n @ post" by auto
      then show ?thesis by blast
    qed
  qed
  then show ?case
    using Cons pre by simp
qed

lemma containsText_map:
  "containsText (map f s) n \<longleftrightarrow> (\<exists>part. containsText s part \<and> map f part = n)"
proof
  assume "containsText (map f s) n"
  then obtain pre post where "map f s = pre @ n @ post"
    unfolding containsText_def by blast
  then obtain a rest where a: "s = a @ rest" "map f rest = n @ post"
    by (metis map_eq_append_conv)
  then obtain b c where "rest = b @ c" "map f b = n"
    by (metis map_eq_append_conv)
  then have "s = a @ b @ c" "map f b = n"
    using a by simp_all
  then have "containsText s b \<and> map f b = n"
    unfolding containsText_def by blast
  then show "\<exists>part. containsText s part \<and> map f part = n"
    by blast
next
  assume "\<exists>part. containsText s part \<and> map f part = n"
  then obtain part pre post where "s = pre @ part @ post" "map f part = n"
    unfolding containsText_def by blast
  then have "map f s = map f pre @ n @ map f post"
    by simp
  then show "containsText (map f s) n"
    unfolding containsText_def by blast
qed



section \<open>The guest name\<close>

text \<open>
  Element 1 of a match of either pattern is always set, so \<open>trim\<close> never meets
  \<open>undefined\<close>; and the name follows the order summary, description, fallback.
\<close>

lemma regexMatch_reserved_group:
  assumes "regexMatch reservedRe s = Some g"
  shows "\<exists>t. g = Some t"
  using regexMatch_Some [OF assms] sem_reservedRe by blast

lemma regexMatch_desc_group:
  assumes "regexMatch descRe s = Some g"
  shows "\<exists>t. g = Some t"
  using regexMatch_Some [OF assms] sem_descRe by blast

lemma extractGuestName_total: "\<exists>n. extractGuestName s d = Inr n"
proof (cases "regexMatch reservedRe s")
  case None
  show ?thesis
  proof (cases d)
    case dNone: None
    then show ?thesis using None by (simp add: extractGuestName_def)
  next
    case (Some x)
    show ?thesis
    proof (cases "x = [] \<or> regexMatch descRe x = None")
      case True
      then show ?thesis using None Some by (auto simp: extractGuestName_def)
    next
      case False
      then obtain g where g: "regexMatch descRe x = Some g" by auto
      then obtain t where "g = Some t" using regexMatch_desc_group by blast
      then show ?thesis using None Some False g by (simp add: extractGuestName_def)
    qed
  qed
next
  case (Some g)
  then obtain t where "g = Some t" using regexMatch_reserved_group by blast
  then show ?thesis using Some by (simp add: extractGuestName_def)
qed


section \<open>One event, and the loop over a feed\<close>

lemma processEvent_skip: "\<not> candidate U ev \<Longrightarrow> processEvent U pid ev = Inr None"
  by (auto simp: candidate_def processEvent_def Let_def split: option.splits)

lemma processEvent_fault:
  assumes "faulty U ev"
  shows "processEvent U pid ev = Inl (RangeError (js ''Invalid time value''))"
proof -
  obtain a b where ab: "ev_start ev = Some a" "ev_end ev = Some b"
    using assms by (auto simp: faulty_def candidate_def)
  obtain n where n: "extractGuestName (orElse (ev_summary ev) []) (ev_description ev) = Inr n"
    using extractGuestName_total by blast
  have bad: "newDate a = InvalidDate \<or> newDate b = InvalidDate"
    using assms ab by (auto simp: faulty_def)
  show ?thesis
  proof (cases "newDate a = InvalidDate")
    case True
    then show ?thesis
      using assms ab n by (auto simp: faulty_def candidate_def processEvent_def Let_def bindE_def)
  next
    case False
    then obtain t where "newDate a = Instant t" by (cases "newDate a") auto
    moreover have "newDate b = InvalidDate" using bad False by simp
    ultimately show ?thesis
      using assms ab n by (auto simp: faulty_def candidate_def processEvent_def Let_def bindE_def)
  qed
qed

lemma newDate_Instant: "newDate d = Instant t \<Longrightarrow> d = Instant t"
  by (cases d) (auto split: if_splits)

lemma processEvent_emit:
  assumes "candidate U ev" "\<not> faulty U ev"
  shows "\<exists>r. processEvent U pid ev = Inr (Some r)
           \<and> id_res r = eventId pid ev \<and> propertyId r = pid
           \<and> extractGuestName (orElse (ev_summary ev) []) (ev_description ev) = Inr (guestName r)
           \<and> nights r = nightsOfEvent ev \<and> nights r \<noteq> None
           \<and> total r = 0 \<and> source r = js ''airbnb'' \<and> summary r = orElse (ev_summary ev) []"
proof -
  obtain a b where ab: "ev_start ev = Some a" "ev_end ev = Some b"
    using assms by (auto simp: candidate_def)
  obtain n where n: "extractGuestName (orElse (ev_summary ev) []) (ev_description ev) = Inr n"
    using extractGuestName_total by blast
  obtain ta tb where t: "newDate a = Instant ta" "newDate b = Instant tb"
    using assms ab by (cases "newDate a"; cases "newDate b") (auto simp: faulty_def)
  then have d: "a = Instant ta" "b = Instant tb"
    by (auto dest: newDate_Instant)
  show ?thesis
    using assms(1) ab n t
    by (simp add: candidate_def processEvent_def Let_def bindE_def eventId_def nightsOfEvent_def d)
qed

lemma faulty_candidate: "faulty U ev \<Longrightarrow> candidate U ev"
  by (simp add: faulty_def)

lemma processEvent_cases:
  "(\<not> candidate U ev \<and> processEvent U pid ev = Inr None)
   \<or> (candidate U ev \<and> faulty U ev
       \<and> processEvent U pid ev = Inl (RangeError (js ''Invalid time value'')))
   \<or> (candidate U ev \<and> \<not> faulty U ev \<and> (\<exists>r. processEvent U pid ev = Inr (Some r)))"
  using processEvent_skip [of U ev pid] processEvent_fault [of U ev pid]
    processEvent_emit [of U ev pid] faulty_candidate [of U ev] by blast

lemma processEvent_Some:
  assumes "processEvent U pid ev = Inr (Some r)"
  shows "candidate U ev \<and> \<not> faulty U ev
         \<and> id_res r = eventId pid ev \<and> propertyId r = pid
         \<and> extractGuestName (orElse (ev_summary ev) []) (ev_description ev) = Inr (guestName r)
         \<and> nights r = nightsOfEvent ev \<and> nights r \<noteq> None
         \<and> total r = 0 \<and> source r = js ''airbnb'' \<and> summary r = orElse (ev_summary ev) []"
proof -
  have e: "candidate U ev" "\<not> faulty U ev"
    using assms processEvent_cases [of U ev pid] by auto
  obtain r' where r': "processEvent U pid ev = Inr (Some r')"
    "id_res r' = eventId pid ev \<and> propertyId r' = pid
       \<and> extractGuestName (orElse (ev_summary ev) []) (ev_description ev) = Inr (guestName r')
       \<and> nights r' = nightsOfEvent ev \<and> nights r' \<noteq> None
       \<and> total r' = 0 \<and> source r' = js ''airbnb'' \<and> summary r' = orElse (ev_summary ev) []"
    using processEvent_emit [OF e, of pid] by blast
  have "r' = r"
    using r'(1) assms by simp
  then show ?thesis
    using r'(2) e by blast
qed

lemma processEvent_None: "processEvent U pid ev = Inr None \<longleftrightarrow> \<not> candidate U ev"
  using processEvent_cases [of U ev pid] by auto

lemma usable_Some: "usable x \<Longrightarrow> x \<noteq> None"
  by (cases x) auto


lemma collect_map:
  assumes step: "\<forall>ev r. processEvent U pid ev = Inr (Some r) \<longrightarrow> P ev \<and> f r = g ev"
    and skip: "\<forall>ev. processEvent U pid ev = Inr None \<longrightarrow> \<not> P ev"
    and run: "collect U pid evs acc = Inr rs"
  shows "map f rs = map f acc @ map g (filter P (map snd evs))"
  using run
proof (induction evs arbitrary: acc)
  case Nil
  then show ?case by simp
next
  case (Cons p evs)
  obtain k ev where p: "p = (k, ev)" by (cases p)
  show ?case
  proof (cases "processEvent U pid ev")
    case (Inl e)
    then show ?thesis using Cons.prems p by simp
  next
    case (Inr o1)
    show ?thesis
    proof (cases o1)
      case None
      then have "collect U pid evs acc = Inr rs"
        using Cons.prems p Inr by simp
      then show ?thesis
        using Cons.IH [of acc] skip Inr None p by simp
    next
      case (Some r)
      then have "collect U pid evs (acc @ [r]) = Inr rs"
        using Cons.prems p Inr by simp
      then show ?thesis
        using Cons.IH [of "acc @ [r]"] step Inr Some p by simp
    qed
  qed
qed





lemma parseIcal_fst: "fst (parseIcal U net url pid nm con) = parsed U net url pid"
  by (simp add: parsed_def parseIcal_def split: fetched.splits sum.splits)

lemma parseIcal_success:
  assumes "parseIcal U net url pid nm con = (Some rs, con')"
  shows "\<exists>evs. net url = Resolved evs \<and> collect U pid evs [] = Inr rs"
  using assms by (auto simp: parseIcal_def split: fetched.splits sum.splits)


section \<open>The cache\<close>

text \<open>
  Assigning a property and storing a sync result keep the keys distinct, the invariant
  of an object used as a dictionary.
\<close>

lemma map_of_insertKey:
  "map_of (insertKey k v obj) = (map_of obj)(k \<mapsto> v)" if "k \<notin> set (map fst obj)"
  using that by (induction obj) (auto simp: fun_upd_twist)

lemma map_of_setProp: "map_of (setProp k v obj) = (map_of obj)(k \<mapsto> v)"
  by (simp add: setProp_def map_of_insertKey update_conv')

lemma keys_insertKey: "set (map fst (insertKey k v obj)) = insert k (set (map fst obj))"
proof (induction obj)
  case Nil
  then show ?case by simp
next
  case (Cons a obj)
  obtain k' v' where a: "a = (k', v')" by (cases a)
  show ?case
  proof (cases "isArrayIndex k \<and> (\<not> isArrayIndex k' \<or> decimal k < decimal k')")
    case True
    then show ?thesis using a by simp
  next
    case False
    then have "insertKey k v (a # obj) = (k', v') # insertKey k v obj"
      unfolding a by auto
    then show ?thesis using Cons a by auto
  qed
qed

lemma distinct_insertKey:
  "k \<notin> set (map fst obj) \<Longrightarrow> distinct (map fst obj) \<Longrightarrow> distinct (map fst (insertKey k v obj))"
proof (induction obj)
  case Nil
  then show ?case by simp
next
  case (Cons a obj)
  then show ?case using keys_insertKey [of k v obj] by (cases a) auto
qed

lemma distinct_setProp:
  "distinct (map fst obj) \<Longrightarrow> distinct (map fst (setProp k v obj))"
  by (simp add: setProp_def distinct_insertKey distinct_update)

lemma keys_setProp_known:
  "k \<in> set (map fst obj) \<Longrightarrow> map fst (setProp k v obj) = map fst obj"
  by (simp add: setProp_def update_keys)

lemma keys_map_entry: "map fst (AList.map_entry k f al) = map fst al"
  by (induction al) auto

lemma map_of_storeResult:
  "map_of (storeResult pid rs now c) k =
     (if k = pid
      then map_option (\<lambda>e. e\<lparr>reservations := rs, lastSynced := Some (isoOfInstant now)\<rparr>) (map_of c pid)
      else map_of c k)"
  by (auto simp: storeResult_def map_of_map_entry split: option.splits)

lemma keys_storeResult: "map fst (storeResult pid rs now c) = map fst c"
  by (simp add: storeResult_def keys_map_entry)

lemma syncLoop_step:
  assumes "map_of (propertyCache w) pid = Some ent"
  shows "\<exists>w1. syncLoop U E (pid # pids) w = syncLoop U E pids w1
           \<and> map fst (propertyCache w1) = map fst (propertyCache w)
           \<and> (\<forall>k. map_of (propertyCache w1) k =
                  (if k = pid then Some (synced U E pid ent) else map_of (propertyCache w) k))"
proof (cases "parseIcal U (netAt E pid) (icalUrl ent) pid (Some (name ent)) (console w)")
  case (Pair res con)
  have res: "parsed U (netAt E pid) (icalUrl ent) pid = res"
    using parseIcal_fst [of U "netAt E pid" "icalUrl ent" pid "Some (name ent)" "console w"] Pair
    by simp
  show ?thesis
  proof (cases res)
    case None
    then show ?thesis
      using assms Pair res by (auto simp: synced_def)
  next
    case (Some rs)
    let ?w1 = "\<lparr> propertyCache = storeResult pid rs (nowAt E pid) (propertyCache w),
                 console = con @ [okLine (name ent) (length rs)] \<rparr>"
    have "syncLoop U E (pid # pids) w = syncLoop U E pids ?w1"
      using assms Pair Some by simp
    moreover have "map fst (propertyCache ?w1) = map fst (propertyCache w)"
      by (simp add: keys_storeResult)
    moreover have "\<forall>k. map_of (propertyCache ?w1) k =
                  (if k = pid then Some (synced U E pid ent) else map_of (propertyCache w) k)"
      using assms res Some by (simp add: map_of_storeResult synced_def)
    ultimately show ?thesis by blast
  qed
qed

lemma syncLoop_result:
  assumes "distinct ks" "set ks \<subseteq> set (map fst (propertyCache w))"
  shows "\<exists>w'. syncLoop U E ks w = Inr w'
           \<and> map fst (propertyCache w') = map fst (propertyCache w)
           \<and> (\<forall>k. map_of (propertyCache w') k =
                  (if k \<in> set ks then map_option (synced U E k) (map_of (propertyCache w) k)
                   else map_of (propertyCache w) k))"
  using assms
proof (induction ks arbitrary: w)
  case Nil
  then show ?case by simp
next
  case (Cons pid pids)
  have "pid \<in> set (map fst (propertyCache w))"
    using Cons.prems by simp
  then obtain ent where ent: "map_of (propertyCache w) pid = Some ent"
    by (metis map_of_eq_None_iff not_Some_eq set_map)
  obtain w1 where w1: "syncLoop U E (pid # pids) w = syncLoop U E pids w1"
    "map fst (propertyCache w1) = map fst (propertyCache w)"
    "\<forall>k. map_of (propertyCache w1) k =
        (if k = pid then Some (synced U E pid ent) else map_of (propertyCache w) k)"
    using syncLoop_step [OF ent] by blast
  have "distinct pids" "set pids \<subseteq> set (map fst (propertyCache w1))"
    using Cons.prems w1(2) by auto
  then obtain w' where w': "syncLoop U E pids w1 = Inr w'"
    "map fst (propertyCache w') = map fst (propertyCache w1)"
    "\<forall>k. map_of (propertyCache w') k =
        (if k \<in> set pids then map_option (synced U E k) (map_of (propertyCache w1) k)
         else map_of (propertyCache w1) k)"
    using Cons.IH [of w1] by blast
  have "pid \<notin> set pids"
    using Cons.prems by simp
  then have "\<forall>k. map_of (propertyCache w') k =
        (if k \<in> set (pid # pids) then map_option (synced U E k) (map_of (propertyCache w) k)
         else map_of (propertyCache w) k)"
    using w'(3) w1(3) ent by auto
  then show ?case
    using w1(1,2) w'(1,2) by simp
qed

lemma syncAll_result:
  assumes "distinct (map fst (propertyCache w))"
  shows "\<exists>w'. syncAll U E w = Inr w'
           \<and> map fst (propertyCache w') = map fst (propertyCache w)
           \<and> (\<forall>k. map_of (propertyCache w') k = map_option (synced U E k) (map_of (propertyCache w) k))"
proof -
  let ?w0 = "w\<lparr>console := console w
            @ [js ''['' @ isoOfInstant (startedAt E) @ js ''] Syncing all properties...'']\<rparr>"
  have "distinct (map fst (propertyCache ?w0))" "set (map fst (propertyCache w)) \<subseteq> set (map fst (propertyCache ?w0))"
    using assms by simp_all
  then obtain w' where w': "syncLoop U E (map fst (propertyCache w)) ?w0 = Inr w'"
    "map fst (propertyCache w') = map fst (propertyCache ?w0)"
    "\<forall>k. map_of (propertyCache w') k =
        (if k \<in> set (map fst (propertyCache w)) then map_option (synced U E k) (map_of (propertyCache ?w0) k)
         else map_of (propertyCache ?w0) k)"
    using syncLoop_result [of "map fst (propertyCache w)" ?w0 U E] assms by auto
  have "\<forall>k. map_of (propertyCache w') k = map_option (synced U E k) (map_of (propertyCache w) k)"
  proof
    fix k
    show "map_of (propertyCache w') k = map_option (synced U E k) (map_of (propertyCache w) k)"
    proof (cases "k \<in> set (map fst (propertyCache w))")
      case True
      then show ?thesis using w'(3) by simp
    next
      case False
      then have "map_of (propertyCache w) k = None"
        by (simp add: map_of_eq_None_iff)
      then show ?thesis using w'(3) False by simp
    qed
  qed
  then show ?thesis
    using w'(1,2) by (simp add: syncAll_def)
qed



section \<open>The sample inputs, evaluated\<close>

lemmas sample_defs =
  asciiTable_def serving_def unreachable_def stay_def loft_def cabin_def flakyNet_def noon_def
  twoHomes_def request_def js_def

lemma blocked_examples:
  "isBlocked U (js ''Airbnb (Not available)'')"
  "\<not> isBlocked U (js ''Reserved - Airbnb (HM1234)'')"
  "\<not> isBlocked U (js ''Reserved - Jane Doe'')"
  "\<not> isBlocked U (js ''Reserved - '')"
  "\<not> isBlocked U (js ''Reserved - Ann'')"
  "\<not> isBlocked U (js ''Reserved - Bob'')"
  by (simp_all add: isBlocked_def toLowerCase_ascii js_def asciiLower_def)

lemma guest_examples:
  "extractGuestName (js ''Reserved - Airbnb (HM1234)'') d = Inr (js ''Airbnb (HM1234)'')"
  "extractGuestName (js ''Reserved - Jane Doe'') d = Inr (js ''Jane Doe'')"
  "extractGuestName (js ''Reserved - '') d = Inr []"
  "extractGuestName (js ''Reserved - Ann'') d = Inr (js ''Ann'')"
  "extractGuestName (js ''Reserved - Bob'') d = Inr (js ''Bob'')"
  by (simp_all add: extractGuestName_def reservedRe_def js_def isWhiteSpace_def
      isLineTerminator_def asciiUpper_def trim_def)

lemma iso_landmarks:
  "isoOfInstant 0 = js ''1970-01-01T00:00:00.000Z''"
  "isoOfInstant (- 1) = js ''1969-12-31T23:59:59.999Z''"
  "isoOfInstant 951782400000 = js ''2000-02-29T00:00:00.000Z''"
  "isoOfInstant 4107542400000 = js ''2100-03-01T00:00:00.000Z''"
  "isoOfInstant 253402300800000 = js ''+010000-01-01T00:00:00.000Z''"
  "isoOfInstant (- 62198755200000) = js ''-000001-01-01T00:00:00.000Z''"
  "isoOfInstant 8640000000000000 = js ''+275760-09-13T00:00:00.000Z''"
  "isoOfInstant (- 8640000000000000) = js ''-271821-04-20T00:00:00.000Z''"
  by code_simp+

lemma iso_examples:
  "isoOfInstant 1704067200000 = js ''2024-01-01T00:00:00.000Z''"
  "isoOfInstant 1704326400000 = js ''2024-01-04T00:00:00.000Z''"
  "isoOfInstant 1704110400000 = js ''2024-01-01T12:00:00.000Z''"
  "isoOfInstant 1704153600000 = js ''2024-01-02T00:00:00.000Z''"
  by code_simp+

lemma date_examples:
  "beforeT (js ''2024-01-01T00:00:00.000Z'') = js ''2024-01-01''"
  "beforeT (js ''2024-01-04T00:00:00.000Z'') = js ''2024-01-04''"
  "beforeT (js ''2024-01-02T00:00:00.000Z'') = js ''2024-01-02''"
  by (simp_all add: beforeT_def js_def)

lemma processEvent_stay:
  assumes "\<not> isBlocked U smry" "smry \<noteq> []" "\<bar>a\<bar> \<le> 8640000000000000" "\<bar>b\<bar> \<le> 8640000000000000"
    and "extractGuestName smry None = Inr g"
  shows "processEvent U pid (stay smry a b u) =
           Inr (Some \<lparr> id_res = (if truthy u then orElse u [] else pid @ js ''-'' @ isoOfInstant a),
                       propertyId = pid, guestName = g,
                       checkIn = beforeT (isoOfInstant a), checkOut = beforeT (isoOfInstant b),
                       nights = Some ((2 * (b - a) + msPerDay) div (2 * msPerDay)),
                       total = 0, source = js ''airbnb'', summary = smry \<rparr>)"
  using assms by (simp add: processEvent_def stay_def Let_def bindE_def)

lemma sample_stays:
  "processEvent U (js ''1'') (stay (js ''Reserved - Jane Doe'') 1704067200000 1704067200000 None)
   = Inr (Some \<lparr> id_res = js ''1-2024-01-01T00:00:00.000Z'', propertyId = js ''1'',
              guestName = js ''Jane Doe'', checkIn = js ''2024-01-01'',
              checkOut = js ''2024-01-01'', nights = Some 0, total = 0,
              source = js ''airbnb'', summary = js ''Reserved - Jane Doe'' \<rparr>)"
  "processEvent U (js ''1'') (stay (js ''Reserved - '') 1704067200000 1704326400000 (Some (js ''uid-7'')))
   = Inr (Some \<lparr> id_res = js ''uid-7'', propertyId = js ''1'', guestName = [],
                  checkIn = js ''2024-01-01'', checkOut = js ''2024-01-04'', nights = Some 3,
                  total = 0, source = js ''airbnb'', summary = js ''Reserved - '' \<rparr>)"
  "processEvent U (js ''1'') (stay (js ''Reserved - Ann'') 1704067200000 1704326400000 None)
   = Inr (Some \<lparr> id_res = js ''1-2024-01-01T00:00:00.000Z'', propertyId = js ''1'',
              guestName = js ''Ann'', checkIn = js ''2024-01-01'',
              checkOut = js ''2024-01-04'', nights = Some 3, total = 0,
              source = js ''airbnb'', summary = js ''Reserved - Ann'' \<rparr>)"
  "processEvent U (js ''1'') (stay (js ''Reserved - Bob'') 1704067200000 1704153600000 None)
   = Inr (Some \<lparr> id_res = js ''1-2024-01-01T00:00:00.000Z'', propertyId = js ''1'',
              guestName = js ''Bob'', checkIn = js ''2024-01-01'',
              checkOut = js ''2024-01-02'', nights = Some 1, total = 0,
              source = js ''airbnb'', summary = js ''Reserved - Bob'' \<rparr>)"
proof -
  have ne: "js ''Reserved - Jane Doe'' \<noteq> []" "js ''Reserved - '' \<noteq> []"
    "js ''Reserved - Ann'' \<noteq> []" "js ''Reserved - Bob'' \<noteq> []"
    by (simp_all add: js_def)
  have minus: "js ''1'' @ js ''-'' @ js ''2024-01-01T00:00:00.000Z'' = js ''1-2024-01-01T00:00:00.000Z''"
    by (simp add: js_def)
  have uid: "js ''uid-7'' \<noteq> []"
    by (simp add: js_def)
  show "processEvent U (js ''1'') (stay (js ''Reserved - Jane Doe'') 1704067200000 1704067200000 None)
   = Inr (Some \<lparr> id_res = js ''1-2024-01-01T00:00:00.000Z'', propertyId = js ''1'',
              guestName = js ''Jane Doe'', checkIn = js ''2024-01-01'',
              checkOut = js ''2024-01-01'', nights = Some 0, total = 0,
              source = js ''airbnb'', summary = js ''Reserved - Jane Doe'' \<rparr>)"
    using processEvent_stay [where U = U and smry = "js ''Reserved - Jane Doe''" and a = 1704067200000 and b = 1704067200000
        and g = "js ''Jane Doe''" and pid = "js ''1''" and u = None] ne uid
    by (simp add: blocked_examples guest_examples iso_examples date_examples minus msPerDay_def)
  show "processEvent U (js ''1'') (stay (js ''Reserved - '') 1704067200000 1704326400000 (Some (js ''uid-7'')))
   = Inr (Some \<lparr> id_res = js ''uid-7'', propertyId = js ''1'', guestName = [],
                  checkIn = js ''2024-01-01'', checkOut = js ''2024-01-04'', nights = Some 3,
                  total = 0, source = js ''airbnb'', summary = js ''Reserved - '' \<rparr>)"
    using processEvent_stay [where U = U and smry = "js ''Reserved - ''" and a = 1704067200000 and b = 1704326400000
        and g = "[]" and pid = "js ''1''" and u = "Some (js ''uid-7'')"] ne uid
    by (simp add: blocked_examples guest_examples iso_examples date_examples msPerDay_def)
  show "processEvent U (js ''1'') (stay (js ''Reserved - Ann'') 1704067200000 1704326400000 None)
   = Inr (Some \<lparr> id_res = js ''1-2024-01-01T00:00:00.000Z'', propertyId = js ''1'',
              guestName = js ''Ann'', checkIn = js ''2024-01-01'',
              checkOut = js ''2024-01-04'', nights = Some 3, total = 0,
              source = js ''airbnb'', summary = js ''Reserved - Ann'' \<rparr>)"
    using processEvent_stay [where U = U and smry = "js ''Reserved - Ann''" and a = 1704067200000 and b = 1704326400000
        and g = "js ''Ann''" and pid = "js ''1''" and u = None] ne uid
    by (simp add: blocked_examples guest_examples iso_examples date_examples minus msPerDay_def)
  show "processEvent U (js ''1'') (stay (js ''Reserved - Bob'') 1704067200000 1704153600000 None)
   = Inr (Some \<lparr> id_res = js ''1-2024-01-01T00:00:00.000Z'', propertyId = js ''1'',
              guestName = js ''Bob'', checkIn = js ''2024-01-01'',
              checkOut = js ''2024-01-02'', nights = Some 1, total = 0,
              source = js ''airbnb'', summary = js ''Reserved - Bob'' \<rparr>)"
    using processEvent_stay [where U = U and smry = "js ''Reserved - Bob''" and a = 1704067200000 and b = 1704153600000
        and g = "js ''Bob''" and pid = "js ''1''" and u = None] ne uid
    by (simp add: blocked_examples guest_examples iso_examples date_examples minus msPerDay_def)
qed

section \<open>The claims\<close>




text \<open>
  Claim C2.  The summary is a blackout exactly when, lower-cased, it contains
  "not available", or contains "airbnb" and does not contain "reserved"; a \<open>VEVENT\<close>
  with a start and an end is skipped exactly when its summary is a blackout.  The summary
  "Airbnb (Not available)" is skipped, and "Reserved - Airbnb (HM1234)" with valid dates
  gives a reservation whose guest name is "Airbnb (HM1234)".  For an ASCII summary, to
  contain a text when lower-cased is to contain a part that is that text up to letter
  case.
\<close>

theorem blackout_rule:
  "(isBlocked U s \<longleftrightarrow>
      containsText (toLowerCase U s) (js ''not available'')
      \<or> (containsText (toLowerCase U s) (js ''airbnb'')
          \<and> \<not> containsText (toLowerCase U s) (js ''reserved'')))
   \<and> (ev_type ev = js ''VEVENT'' \<and> ev_start ev \<noteq> None \<and> ev_end ev \<noteq> None \<longrightarrow>
        (processEvent U pid ev = Inr None \<longleftrightarrow> isBlocked U (orElse (ev_summary ev) [])))
   \<and> (ev_type ev = js ''VEVENT'' \<and> ev_summary ev = Some (js ''Airbnb (Not available)'') \<longrightarrow>
        processEvent U pid ev = Inr None)
   \<and> (ev_type ev = js ''VEVENT'' \<and> ev_summary ev = Some (js ''Reserved - Airbnb (HM1234)'')
        \<and> usable (ev_start ev) \<and> usable (ev_end ev) \<longrightarrow>
        (\<exists>r. processEvent U pid ev = Inr (Some r) \<and> guestName r = js ''Airbnb (HM1234)''))
   \<and> (list_all (\<lambda>c. c < 128) s \<longrightarrow>
        (containsText (toLowerCase U s) n \<longleftrightarrow>
           (\<exists>part. containsText s part \<and> map asciiLower part = n)))"
proof (intro conjI impI)
  assume "list_all (\<lambda>c. c < 128) s"
  then show "containsText (toLowerCase U s) n \<longleftrightarrow>
           (\<exists>part. containsText s part \<and> map asciiLower part = n)"
    by (simp add: toLowerCase_ascii containsText_map)
next
  show "isBlocked U s \<longleftrightarrow>
      containsText (toLowerCase U s) (js ''not available'')
      \<or> (containsText (toLowerCase U s) (js ''airbnb'')
          \<and> \<not> containsText (toLowerCase U s) (js ''reserved''))"
    by (simp add: isBlocked_def includesStr_iff)
next
  assume "ev_type ev = js ''VEVENT'' \<and> ev_start ev \<noteq> None \<and> ev_end ev \<noteq> None"
  then show "processEvent U pid ev = Inr None \<longleftrightarrow> isBlocked U (orElse (ev_summary ev) [])"
    using processEvent_None [of U pid ev] by (simp add: candidate_def)
next
  assume a: "ev_type ev = js ''VEVENT'' \<and> ev_summary ev = Some (js ''Airbnb (Not available)'')"
  have "js ''Airbnb (Not available)'' \<noteq> []"
    by (simp add: js_def)
  then have "\<not> candidate U ev"
    using a blocked_examples(1) [of U] by (simp add: candidate_def)
  then show "processEvent U pid ev = Inr None"
    by (rule processEvent_skip)
next
  assume a: "ev_type ev = js ''VEVENT'' \<and> ev_summary ev = Some (js ''Reserved - Airbnb (HM1234)'')
        \<and> usable (ev_start ev) \<and> usable (ev_end ev)"
  have ne: "js ''Reserved - Airbnb (HM1234)'' \<noteq> []"
    by (simp add: js_def)
  have s: "orElse (ev_summary ev) [] = js ''Reserved - Airbnb (HM1234)''"
    using a ne by simp
  have d: "ev_start ev \<noteq> None" "ev_end ev \<noteq> None"
    using a usable_Some by blast+
  have "candidate U ev" "\<not> faulty U ev"
    using a s d blocked_examples(2) [of U] by (simp_all add: candidate_def faulty_def)
  then obtain r where "processEvent U pid ev = Inr (Some r)"
    "extractGuestName (orElse (ev_summary ev) []) (ev_description ev) = Inr (guestName r)"
    using processEvent_emit [of U ev pid] by blast
  then have "processEvent U pid ev = Inr (Some r) \<and> guestName r = js ''Airbnb (HM1234)''"
    using s guest_examples(1) [of "ev_description ev"] by simp
  then show "\<exists>r. processEvent U pid ev = Inr (Some r) \<and> guestName r = js ''Airbnb (HM1234)''"
    by blast
qed

theorem blackout_rule_witness:
  "ev_type (stay (js ''Airbnb (Not available)'') 1704067200000 1704326400000 None) = js ''VEVENT''
   \<and> ev_summary (stay (js ''Airbnb (Not available)'') 1704067200000 1704326400000 None)
       = Some (js ''Airbnb (Not available)'')
   \<and> processEvent asciiTable (js ''1'')
       (stay (js ''Airbnb (Not available)'') 1704067200000 1704326400000 None) = Inr None
   \<and> usable (ev_start (stay (js ''Reserved - Airbnb (HM1234)'') 1704067200000 1704326400000 None))
   \<and> usable (ev_end (stay (js ''Reserved - Airbnb (HM1234)'') 1704067200000 1704326400000 None))
   \<and> (\<exists>r. processEvent asciiTable (js ''1'')
             (stay (js ''Reserved - Airbnb (HM1234)'') 1704067200000 1704326400000 None)
           = Inr (Some r) \<and> guestName r = js ''Airbnb (HM1234)'')"
proof -
  have h: "ev_type (stay (js ''Airbnb (Not available)'') 1704067200000 1704326400000 None) = js ''VEVENT''
   \<and> ev_summary (stay (js ''Airbnb (Not available)'') 1704067200000 1704326400000 None)
       = Some (js ''Airbnb (Not available)'')"
    by (simp add: stay_def)
  have k: "ev_type (stay (js ''Reserved - Airbnb (HM1234)'') 1704067200000 1704326400000 None)
             = js ''VEVENT''
   \<and> ev_summary (stay (js ''Reserved - Airbnb (HM1234)'') 1704067200000 1704326400000 None)
       = Some (js ''Reserved - Airbnb (HM1234)'')
   \<and> usable (ev_start (stay (js ''Reserved - Airbnb (HM1234)'') 1704067200000 1704326400000 None))
   \<and> usable (ev_end (stay (js ''Reserved - Airbnb (HM1234)'') 1704067200000 1704326400000 None))"
    by (simp add: stay_def)
  show ?thesis
    using h k
      blackout_rule [of asciiTable "[]"
        "stay (js ''Airbnb (Not available)'') 1704067200000 1704326400000 None" "js ''1''" "[]"]
      blackout_rule [of asciiTable "[]"
        "stay (js ''Reserved - Airbnb (HM1234)'') 1704067200000 1704326400000 None" "js ''1''" "[]"]
    by blast
qed




text \<open>
  Claim C4.  In a run of \<open>syncAll\<close> over a cache with distinct keys, the run ends
  normally with every key still registered; a property whose parse fails keeps its whole
  entry, reservations and lastSynced included, and a property whose parse succeeds gets
  its own reservations and timestamp, whatever happens to the others.
\<close>

theorem failed_sync_keeps_entry:
  assumes "distinct (map fst (propertyCache w))"
    and "map_of (propertyCache w) pid = Some ent"
  shows "\<exists>w'. syncAll U E w = Inr w'
           \<and> map fst (propertyCache w') = map fst (propertyCache w)
           \<and> (fst (parseIcal U (netAt E pid) (icalUrl ent) pid (Some (name ent)) con) = None
                \<longrightarrow> map_of (propertyCache w') pid = Some ent)
           \<and> (\<forall>rs. fst (parseIcal U (netAt E pid) (icalUrl ent) pid (Some (name ent)) con) = Some rs
                \<longrightarrow> map_of (propertyCache w') pid =
                      Some (ent\<lparr>reservations := rs,
                                lastSynced := Some (isoOfInstant (nowAt E pid))\<rparr>))"
proof -
  obtain w' where w': "syncAll U E w = Inr w'"
    "map fst (propertyCache w') = map fst (propertyCache w)"
    "\<forall>k. map_of (propertyCache w') k = map_option (synced U E k) (map_of (propertyCache w) k)"
    using syncAll_result [OF assms(1)] by blast
  have "map_of (propertyCache w') pid = Some (synced U E pid ent)"
    using w'(3) assms(2) by simp
  then show ?thesis
    using w'(1,2) by (auto simp: parseIcal_fst synced_def)
qed

theorem failed_sync_keeps_entry_witness:
  "distinct (map fst (propertyCache twoHomes))
   \<and> map_of (propertyCache twoHomes) (js ''1'') = Some loft
   \<and> fst (parseIcal asciiTable (flakyNet (js ''1'')) (icalUrl loft) (js ''1'') (Some (name loft)) [])
       = None
   \<and> (\<exists>w'. syncAll asciiTable \<lparr> netAt = flakyNet, nowAt = noon, startedAt = 0 \<rparr> twoHomes = Inr w'
         \<and> map_of (propertyCache w') (js ''1'') = Some loft)"
proof -
  have h: "distinct (map fst (propertyCache twoHomes))"
    "map_of (propertyCache twoHomes) (js ''1'') = Some loft"
    by (simp_all add: sample_defs)
  have f: "fst (parseIcal asciiTable (flakyNet (js ''1'')) (icalUrl loft) (js ''1'') (Some (name loft)) [])
       = None"
    by (simp add: parseIcal_def flakyNet_def)
  show ?thesis
    using h f failed_sync_keeps_entry [OF h,
        of asciiTable "\<lparr> netAt = flakyNet, nowAt = noon, startedAt = 0 \<rparr>" "[]"]
    by auto
qed

text \<open>
  Claim C5, as the code has it.  Registering a propertyId that is already in the store
  overwrites the url and the name, keeps the existing reservations and sets lastSynced
  to \<open>null\<close>; no other entry and no key changes, and this is the state that stays when
  the immediate re-sync fails.
\<close>

theorem register_existing:
  assumes "map_of (propertyCache w) pid = Some old" and "pid \<noteq> []"
    and "startsWith url (js ''https://'')"
  shows "map_of (registerEntry pid nm url (propertyCache w)) pid =
           Some \<lparr> icalUrl = url, name = orElse nm (js ''Property '' @ pid),
                  reservations = reservations old, lastSynced = None \<rparr>
         \<and> (\<forall>k. k \<noteq> pid \<longrightarrow>
               map_of (registerEntry pid nm url (propertyCache w)) k = map_of (propertyCache w) k)
         \<and> map fst (registerEntry pid nm url (propertyCache w)) = map fst (propertyCache w)
         \<and> (parsed U net url pid = None \<longrightarrow>
              propertyCache (snd (postProperties U net now
                \<lparr> body_propertyId = Some pid, body_name = nm, body_icalUrl = Some url \<rparr> w))
              = registerEntry pid nm url (propertyCache w))"
proof -
  have "pid \<in> set (map fst (propertyCache w))"
    using assms(1) by (metis map_of_eq_None_iff option.distinct(1) set_map)
  then have store: "map_of (registerEntry pid nm url (propertyCache w)) pid =
           Some \<lparr> icalUrl = url, name = orElse nm (js ''Property '' @ pid),
                  reservations = reservations old, lastSynced = None \<rparr>
         \<and> (\<forall>k. k \<noteq> pid \<longrightarrow>
               map_of (registerEntry pid nm url (propertyCache w)) k = map_of (propertyCache w) k)
         \<and> map fst (registerEntry pid nm url (propertyCache w)) = map fst (propertyCache w)"
    using assms(1) by (simp add: registerEntry_def map_of_setProp keys_setProp_known)
  have url: "url \<noteq> []"
    using assms(3) by (auto simp: startsWith_def js_def)
  have "parsed U net url pid = None \<longrightarrow>
              propertyCache (snd (postProperties U net now
                \<lparr> body_propertyId = Some pid, body_name = nm, body_icalUrl = Some url \<rparr> w))
              = registerEntry pid nm url (propertyCache w)"
    using assms(2,3) url parseIcal_fst [of U net url pid nm "console w"]
    by (auto simp: postProperties_def Let_def split: prod.splits option.splits)
  then show ?thesis
    using store by blast
qed

theorem register_existing_witness:
  "map_of (propertyCache twoHomes) (js ''1'') = Some loft \<and> js ''1'' \<noteq> []
   \<and> startsWith (js ''https://new.example/loft.ics'') (js ''https://'')
   \<and> map_of (registerEntry (js ''1'') None (js ''https://new.example/loft.ics'')
        (propertyCache twoHomes)) (js ''1'')
      = Some \<lparr> icalUrl = js ''https://new.example/loft.ics'', name = js ''Property 1'',
               reservations = [], lastSynced = None \<rparr>"
proof -
  have h: "map_of (propertyCache twoHomes) (js ''1'') = Some loft" "js ''1'' \<noteq> []"
    "startsWith (js ''https://new.example/loft.ics'') (js ''https://'')"
    by (simp_all add: sample_defs startsWith_def)
  show ?thesis
    using h register_existing [OF h, of None asciiTable "serving []" 0]
    by (simp add: sample_defs)
qed

text \<open>
  As the claim is written (the existing lastSynced is preserved until the re-sync
  completes) it fails: after a re-registration whose re-sync fails, the timestamp of the
  earlier sync is gone.
\<close>

theorem reregistration_resets_lastSynced:
  "map_option lastSynced
     (map_of (propertyCache (snd (postProperties asciiTable (unreachable (js ''ETIMEDOUT''))
        1704110400000 (request (js ''1'') (js ''https://new.example/loft.ics'')) twoHomes)))
       (js ''1'')) = Some None
   \<and> map_option lastSynced (map_of (propertyCache twoHomes) (js ''1''))
       = Some (Some (js ''2024-01-01T00:00:00.000Z''))"
  by (simp add: sample_defs postProperties_def Let_def startsWith_def parseIcal_def
      registerEntry_def setProp_def)






text \<open>
  Claim C8, as the code has it.  After a successful parse the reservation ids are, in
  feed order, the ids of the candidate events (the uid when it is not empty, otherwise
  the property id, a hyphen and the ISO check-in instant), and these are what the store
  holds for the property; nothing removes duplicates, so the ids are pairwise distinct
  exactly when those of the events are.
\<close>

theorem ids_follow_events:
  assumes "parseIcal U net url pid nm con = (Some rs, con')"
    and "net url = Resolved evs"
  shows "map id_res rs = map (eventId pid) (filter (candidate U) (map snd evs))
         \<and> (distinct (map id_res rs) \<longleftrightarrow>
              distinct (map (eventId pid) (filter (candidate U) (map snd evs))))
         \<and> (map_of c pid = Some e \<longrightarrow>
              map_option reservations (map_of (storeResult pid rs now c) pid) = Some rs)"
proof -
  have c: "collect U pid evs [] = Inr rs"
    using parseIcal_success [OF assms(1)] assms(2) by simp
  have s1: "\<forall>ev r. processEvent U pid ev = Inr (Some r) \<longrightarrow>
              candidate U ev \<and> id_res r = eventId pid ev"
    using processEvent_Some by blast
  have s2: "\<forall>ev. processEvent U pid ev = Inr None \<longrightarrow> \<not> candidate U ev"
    using processEvent_None by blast
  have m: "map id_res rs = map (eventId pid) (filter (candidate U) (map snd evs))"
    using collect_map [OF s1 s2 c] by simp
  show ?thesis
    using m by (simp add: map_of_storeResult)
qed

theorem ids_follow_events_witness:
  "parseIcal asciiTable
     (serving [(js ''k1'', stay (js ''Reserved - Jane Doe'') 1704067200000 1704067200000 None)])
     (js ''https://feed.example/cal.ics'') (js ''1'') None []
   = (Some [\<lparr> id_res = js ''1-2024-01-01T00:00:00.000Z'', propertyId = js ''1'',
              guestName = js ''Jane Doe'', checkIn = js ''2024-01-01'',
              checkOut = js ''2024-01-01'', nights = Some 0, total = 0,
              source = js ''airbnb'', summary = js ''Reserved - Jane Doe'' \<rparr>], [])
   \<and> map (eventId (js ''1'')) (filter (candidate asciiTable)
         (map snd [(js ''k1'', stay (js ''Reserved - Jane Doe'') 1704067200000 1704067200000 None)]))
     = [js ''1-2024-01-01T00:00:00.000Z'']"
proof -
  have h1: "parseIcal asciiTable
     (serving [(js ''k1'', stay (js ''Reserved - Jane Doe'') 1704067200000 1704067200000 None)])
     (js ''https://feed.example/cal.ics'') (js ''1'') None []
   = (Some [\<lparr> id_res = js ''1-2024-01-01T00:00:00.000Z'', propertyId = js ''1'',
              guestName = js ''Jane Doe'', checkIn = js ''2024-01-01'',
              checkOut = js ''2024-01-01'', nights = Some 0, total = 0,
              source = js ''airbnb'', summary = js ''Reserved - Jane Doe'' \<rparr>], [])"
    by (simp add: parseIcal_def serving_def sample_stays)
  have h2: "serving [(js ''k1'', stay (js ''Reserved - Jane Doe'') 1704067200000 1704067200000 None)]
              (js ''https://feed.example/cal.ics'')
            = Resolved [(js ''k1'', stay (js ''Reserved - Jane Doe'') 1704067200000 1704067200000 None)]"
    by (simp add: serving_def)
  show ?thesis
    using h1 ids_follow_events [OF h1 h2] by simp
qed

text \<open>
  As the claim is written (ids pairwise distinct even for events without uid that share
  a check-in instant) it fails: two such events leave two reservations with the same id in
  the store.
\<close>

theorem duplicate_ids_stored:
  "map_option (map id_res)
     (map_option reservations
        (map_of (propertyCache (snd (postProperties asciiTable
           (serving [(js ''k1'', stay (js ''Reserved - Ann'') 1704067200000 1704326400000 None),
                     (js ''k2'', stay (js ''Reserved - Bob'') 1704067200000 1704153600000 None)])
           1704110400000 (request (js ''1'') (js ''https://feed.example/cal.ics'')) twoHomes)))
           (js ''1'')))
   = Some [js ''1-2024-01-01T00:00:00.000Z'', js ''1-2024-01-01T00:00:00.000Z'']"
proof -
  have p: "parseIcal asciiTable
           (serving [(js ''k1'', stay (js ''Reserved - Ann'') 1704067200000 1704326400000 None),
                     (js ''k2'', stay (js ''Reserved - Bob'') 1704067200000 1704153600000 None)])
           (js ''https://feed.example/cal.ics'') (js ''1'') None []
        = (Some [\<lparr> id_res = js ''1-2024-01-01T00:00:00.000Z'', propertyId = js ''1'',
              guestName = js ''Ann'', checkIn = js ''2024-01-01'',
              checkOut = js ''2024-01-04'', nights = Some 3, total = 0,
              source = js ''airbnb'', summary = js ''Reserved - Ann'' \<rparr>,
             \<lparr> id_res = js ''1-2024-01-01T00:00:00.000Z'', propertyId = js ''1'',
              guestName = js ''Bob'', checkIn = js ''2024-01-01'',
              checkOut = js ''2024-01-02'', nights = Some 1, total = 0,
              source = js ''airbnb'', summary = js ''Reserved - Bob'' \<rparr>], [])"
    by (simp add: parseIcal_def serving_def sample_stays)
  have u: "js ''1'' \<noteq> []" "js ''https://feed.example/cal.ics'' \<noteq> []"
    "startsWith (js ''https://feed.example/cal.ics'') (js ''https://'')"
    by (simp_all add: js_def startsWith_def)
  show ?thesis
    using p u
    by (simp add: postProperties_def request_def twoHomes_def Let_def map_of_storeResult
        registerEntry_def map_of_setProp)
qed





end
